theory Spec2Isabelle
  imports Main "HOL-Library.Multiset"
begin

section \<open>Session store (stores/user.ts)\<close>

text \<open>
  The Pinia store \<^verbatim>\<open>useUserStore\<close> keeps four refs (token, refreshToken, userInfo,
  permissions), mirrors three of them into \<^verbatim>\<open>localStorage\<close> and pushes routes on the
  router. The refs, the three storage keys and the list of pushed paths are the state; an
  awaited \<^verbatim>\<open>http.post\<close> is an input of the operation: either a rejection or the
  payload the response interceptor resolved with.
\<close>

datatype error = Error string

record UserInfo =
  userId :: int
  username :: string
  nickName :: string
  email :: "string option"
  phone :: "string option"
  avatar :: "string option"
  departmentId :: "int option"
  departmentName :: "string option"
  roleIds :: "int list"
  roles :: "string list"

text \<open>The three keys of \<^verbatim>\<open>localStorage\<close> the store writes; \<open>None\<close> is an absent key.
  The profile is kept as the value \<^verbatim>\<open>JSON.stringify\<close> serialises.\<close>

record storage =
  wa_token :: "string option"
  wa_refresh_token :: "string option"
  wa_user_info :: "UserInfo option"

record user_store =
  token :: string
  refreshToken :: string
  userInfo :: "UserInfo option"
  permissions :: "string list"
  localStorage :: storage
  pushed :: "string list"

text \<open>Payloads of the three endpoints, with the fields the store reads.\<close>

record login_data =
  data_token :: string
  data_refreshToken :: "string option"

record person_data =
  person_id :: int
  person_username :: string
  person_nickName :: "string option"
  person_email :: "string option"
  person_phone :: "string option"
  person_avatar :: "string option"
  person_departmentId :: "int option"
  person_departmentName :: "string option"
  person_roleIds :: "int list option"
  person_roles :: "string list option"

record perms_data =
  data_perms :: "string list option"

text \<open>JavaScript truthiness of an optional string: \<^verbatim>\<open>undefined\<close> and \<^verbatim>\<open>''\<close> are falsy.\<close>

definition truthy :: "string option \<Rightarrow> bool" where
  "truthy v = (case v of None \<Rightarrow> False | Some s \<Rightarrow> s \<noteq> [])"

text \<open>\<^verbatim>\<open>a || b\<close> on optional strings with a string default.\<close>

definition or_else :: "string option \<Rightarrow> string \<Rightarrow> string" where
  "or_else v d = (case v of None \<Rightarrow> d | Some s \<Rightarrow> if s \<noteq> [] then s else d)"

definition isLoggedIn :: "user_store \<Rightarrow> bool" where
  "isLoggedIn s = (token s \<noteq> [])"

definition isAdmin :: "user_store \<Rightarrow> bool" where
  "isAdmin s = (case userInfo s of None \<Rightarrow> False | Some u \<Rightarrow> username u = ''admin'')"

definition fetchUserInfo ::
  "user_store \<Rightarrow> error + person_data \<Rightarrow> error + perms_data \<Rightarrow> (error + UserInfo) \<times> user_store" where
  "fetchUserInfo s person permsResp =
     (case person of
        Inl e \<Rightarrow> (Inl e, s)
      | Inr d \<Rightarrow>
          let u = \<lparr> userId = person_id d,
                    username = person_username d,
                    nickName = or_else (person_nickName d) (person_username d),
                    email = person_email d,
                    phone = person_phone d,
                    avatar = person_avatar d,
                    departmentId = person_departmentId d,
                    departmentName = person_departmentName d,
                    roleIds = (case person_roleIds d of None \<Rightarrow> [] | Some r \<Rightarrow> r),
                    roles = (case person_roles d of None \<Rightarrow> [] | Some r \<Rightarrow> r) \<rparr>;
              s1 = s\<lparr> userInfo := Some u \<rparr>
          in (case permsResp of
                Inl e \<Rightarrow> (Inl e, s1)
              | Inr p \<Rightarrow>
                  let s2 = s1\<lparr> permissions := (case data_perms p of None \<Rightarrow> [] | Some l \<Rightarrow> l) \<rparr>;
                      s3 = s2\<lparr> localStorage := (localStorage s2)\<lparr> wa_user_info := userInfo s2 \<rparr> \<rparr>
                  in (Inr u, s3)))"

definition login ::
  "user_store \<Rightarrow> error + login_data \<Rightarrow> error + person_data \<Rightarrow> error + perms_data
     \<Rightarrow> (error + login_data) \<times> user_store" where
  "login s resp person permsResp =
     (case resp of
        Inl e \<Rightarrow> (Inl e, s)
      | Inr d \<Rightarrow>
          let s1 = s\<lparr> token := data_token d,
                      refreshToken := or_else (data_refreshToken d) [] \<rparr>;
              st1 = (localStorage s1)\<lparr> wa_token := Some (data_token d) \<rparr>;
              st2 = (if truthy (data_refreshToken d)
                     then st1\<lparr> wa_refresh_token := data_refreshToken d \<rparr> else st1);
              s2 = s1\<lparr> localStorage := st2 \<rparr>
          in (case fetchUserInfo s2 person permsResp of
                (Inl e, s3) \<Rightarrow> (Inl e, s3)
              | (Inr u, s3) \<Rightarrow> (Inr d, s3)))"

definition refreshUserToken ::
  "user_store \<Rightarrow> error + login_data \<Rightarrow> (error + login_data) \<times> user_store" where
  "refreshUserToken s resp =
     (if refreshToken s = [] then (Inl (Error ''No refresh token''), s)
      else (case resp of
              Inl e \<Rightarrow> (Inl e, s)
            | Inr d \<Rightarrow>
                let s1 = s\<lparr> token := data_token d,
                            refreshToken := or_else (data_refreshToken d) (refreshToken s) \<rparr>;
                    st1 = (localStorage s1)\<lparr> wa_token := Some (data_token d) \<rparr>;
                    st2 = (if truthy (data_refreshToken d)
                           then st1\<lparr> wa_refresh_token := data_refreshToken d \<rparr> else st1)
                in (Inr d, s1\<lparr> localStorage := st2 \<rparr>)))"

definition logout :: "user_store \<Rightarrow> user_store" where
  "logout s =
     s\<lparr> token := [], refreshToken := [], userInfo := None, permissions := [],
        localStorage := \<lparr> wa_token = None, wa_refresh_token = None, wa_user_info = None \<rparr>,
        pushed := pushed s @ [''/login''] \<rparr>"

definition hasPermission :: "user_store \<Rightarrow> string \<Rightarrow> bool" where
  "hasPermission s permission =
     (if isAdmin s then True else permission \<in> set (permissions s))"

definition hasAnyPermission :: "user_store \<Rightarrow> string list \<Rightarrow> bool" where
  "hasAnyPermission s ps =
     (if isAdmin s then True else list_ex (\<lambda>p. p \<in> set (permissions s)) ps)"

definition hasAllPermissions :: "user_store \<Rightarrow> string list \<Rightarrow> bool" where
  "hasAllPermissions s ps =
     (if isAdmin s then True else list_all (\<lambda>p. p \<in> set (permissions s)) ps)"

text \<open>Concrete sessions used to run the operations.\<close>

definition no_storage :: storage where
  "no_storage = \<lparr> wa_token = None, wa_refresh_token = None, wa_user_info = None \<rparr>"

definition empty_store :: user_store where
  "empty_store = \<lparr> token = [], refreshToken = [], userInfo = None, permissions = [],
                    localStorage = no_storage, pushed = [] \<rparr>"

definition profile_of :: "string \<Rightarrow> UserInfo" where
  "profile_of n = \<lparr> userId = 1, username = n, nickName = n, email = None, phone = None,
                     avatar = None, departmentId = None, departmentName = None,
                     roleIds = [], roles = [] \<rparr>"

definition session_of :: "string \<Rightarrow> string list \<Rightarrow> user_store" where
  "session_of n ps = empty_store\<lparr> token := ''t'', userInfo := Some (profile_of n),
                                   permissions := ps \<rparr>"

text \<open>The invariant of the data model: token and profile are both present or both absent.\<close>

definition token_profile_paired :: "user_store \<Rightarrow> bool" where
  "token_profile_paired s = ((token s \<noteq> []) = (userInfo s \<noteq> None))"

definition login_ok :: "error + login_data" where
  "login_ok = Inr \<lparr> data_token = ''abc'', data_refreshToken = Some ''r1'' \<rparr>"

definition person_ok :: "error + person_data" where
  "person_ok = Inr \<lparr> person_id = 7, person_username = ''alice'', person_nickName = None,
                       person_email = None, person_phone = None, person_avatar = None,
                       person_departmentId = None, person_departmentName = None,
                       person_roleIds = None, person_roles = None \<rparr>"

definition perms_ok :: "error + perms_data" where
  "perms_ok = Inr \<lparr> data_perms = Some [''rk:supply:list''] \<rparr>"

definition rejected :: "error + 'a" where
  "rejected = Inl (Error ''Request failed'')"

section \<open>Menu store (stores/menu.ts)\<close>

text \<open>
  The interface \<^verbatim>\<open>MenuItem\<close>: its scalar fields are the record \<open>MenuProps\<close> (\<^verbatim>\<open>id\<close> is
  \<open>menu_id\<close>), and a menu item is the fields with the optional list of children.
\<close>

record MenuProps =
  menu_id :: int
  parentId :: "int option"
  name :: string
  router :: "string option"
  perms :: "string option"
  type :: int
  icon :: "string option"
  orderNum :: int
  isShow :: bool
  keepAlive :: bool

datatype MenuItem = MenuItem (props: MenuProps) (children: "MenuItem list option")

definition item_id :: "MenuItem \<Rightarrow> int" where
  "item_id item = menu_id (props item)"

subsection \<open>buildMenuTree: the object graph\<close>

text \<open>
  \<^verbatim>\<open>buildMenuTree\<close> allocates one object per record in a \<^verbatim>\<open>Map\<close> keyed by
  identifier and then pushes references to these objects into the \<^verbatim>\<open>children\<close> array
  of the parent object or into \<^verbatim>\<open>roots\<close>. An object is reached only through the
  map, so its key is its address: the store is the map, a reference is a key, and the
  value returned is the list of root references together with the store.
\<close>

record menu_node =
  node_props :: MenuProps
  node_children :: "int list"

record menu_graph =
  heap :: "int \<rightharpoonup> menu_node"
  roots :: "int list"

text \<open>First pass: \<^verbatim>\<open>map.set(item.id, { ...item, children: [] })\<close>.\<close>

definition index_item :: "MenuItem \<Rightarrow> (int \<rightharpoonup> menu_node) \<Rightarrow> (int \<rightharpoonup> menu_node)" where
  "index_item item m = m(item_id item \<mapsto> \<lparr> node_props = props item, node_children = [] \<rparr>)"

definition first_pass :: "MenuItem list \<Rightarrow> (int \<rightharpoonup> menu_node)" where
  "first_pass items = fold index_item items Map.empty"

text \<open>
  Second pass, one record: the test \<^verbatim>\<open>item.parentId && map.has(item.parentId)\<close> is false
  for \<^verbatim>\<open>null\<close> and for \<^verbatim>\<open>0\<close>; the push changes the parent object in the store.
\<close>

definition attach :: "MenuItem \<Rightarrow> menu_graph \<Rightarrow> menu_graph" where
  "attach item g =
     (let node = item_id item in
      case parentId (props item) of
        None \<Rightarrow> g\<lparr> roots := roots g @ [node] \<rparr>
      | Some p \<Rightarrow>
          (case (if p \<noteq> 0 then heap g p else None) of
             Some parent \<Rightarrow>
               g\<lparr> heap := (heap g)(p \<mapsto> parent\<lparr> node_children := node_children parent @ [node] \<rparr>) \<rparr>
           | None \<Rightarrow> g\<lparr> roots := roots g @ [node] \<rparr>))"

definition buildMenuTree :: "MenuItem list \<Rightarrow> menu_graph" where
  "buildMenuTree items = fold attach items \<lparr> heap = first_pass items, roots = [] \<rparr>"

text \<open>
  The tree a reference denotes, followed to a bounded depth: \<open>None\<close> when the depth does
  not suffice. A graph of at most \<open>n\<close> objects without a cycle has no path longer than
  \<open>n\<close>, so \<open>menu_tree\<close> is \<open>None\<close> only for a graph with a cycle below a root, on which
  the recursive readers of the store (\<^verbatim>\<open>filterVisibleMenus\<close>, \<^verbatim>\<open>traverse\<close>) do not return.
\<close>

fun tree_of :: "nat \<Rightarrow> (int \<rightharpoonup> menu_node) \<Rightarrow> int \<Rightarrow> MenuItem option" where
  "tree_of 0 h i = None"
| "tree_of (Suc n) h i =
     (case h i of
        None \<Rightarrow> None
      | Some nd \<Rightarrow>
          (case those (map (tree_of n h) (node_children nd)) of
             None \<Rightarrow> None
           | Some cs \<Rightarrow> Some (MenuItem (node_props nd) (Some cs))))"

definition forest_of :: "nat \<Rightarrow> menu_graph \<Rightarrow> MenuItem list option" where
  "forest_of n g = those (map (tree_of n (heap g)) (roots g))"

definition menu_tree :: "MenuItem list \<Rightarrow> MenuItem list option" where
  "menu_tree items = forest_of (length items) (buildMenuTree items)"

subsection \<open>Readers of the tree\<close>

lemma children_smaller:
  "item \<in> set items \<Longrightarrow> children item = Some cs \<Longrightarrow> size_list size cs < size_list size items"
  by (cases item) (auto dest!: split_list)

text \<open>\<^verbatim>\<open>Array.prototype.sort\<close> is stable, and so is \<open>sort_key\<close>.\<close>

function filterVisibleMenus :: "MenuItem list \<Rightarrow> MenuItem list" where
  "filterVisibleMenus items =
     sort_key (\<lambda>m. orderNum (props m))
       (map (\<lambda>item. MenuItem (props item)
               (case children item of None \<Rightarrow> None | Some cs \<Rightarrow> Some (filterVisibleMenus cs)))
          (filter (\<lambda>item. isShow (props item) \<and> type (props item) \<noteq> 2) items))"
  by pat_completeness auto
termination
  by (relation "measure (size_list size)") (auto dest: children_smaller)

declare filterVisibleMenus.simps [simp del]

text \<open>Pre-order flattening of a tree to its identifiers.\<close>

fun flatten :: "MenuItem \<Rightarrow> int list" where
  "flatten (MenuItem f cs) =
     menu_id f # (case cs of None \<Rightarrow> [] | Some xs \<Rightarrow> concat (map flatten xs))"

text \<open>Siblings in non-decreasing display order, at the top level and below every node.\<close>

fun node_sorted :: "MenuItem \<Rightarrow> bool" where
  "node_sorted (MenuItem f cs) =
     (case cs of
        None \<Rightarrow> True
      | Some xs \<Rightarrow> sorted (map (\<lambda>m. orderNum (props m)) xs) \<and> list_all node_sorted xs)"

definition level_sorted :: "MenuItem list \<Rightarrow> bool" where
  "level_sorted ts = (sorted (map (\<lambda>m. orderNum (props m)) ts) \<and> list_all node_sorted ts)"

subsection \<open>Parent links of a flat list\<close>

text \<open>
  The parent a record is attached to, if any; the parent of an identifier; following
  parent links \<open>k\<close> times. The links of a list end when, from every record, following
  them as many times as the list is long leaves the list: no record is its own ancestor.
\<close>

definition parent_of :: "MenuItem list \<Rightarrow> MenuItem \<Rightarrow> int option" where
  "parent_of items y =
     (case parentId (props y) of
        None \<Rightarrow> None
      | Some p \<Rightarrow> if p \<noteq> 0 \<and> p \<in> item_id ` set items then Some p else None)"

definition parent_id :: "MenuItem list \<Rightarrow> int \<Rightarrow> int option" where
  "parent_id items i =
     (case find (\<lambda>y. item_id y = i) items of None \<Rightarrow> None | Some y \<Rightarrow> parent_of items y)"

fun climb :: "nat \<Rightarrow> MenuItem list \<Rightarrow> int \<Rightarrow> int option" where
  "climb 0 items i = Some i"
| "climb (Suc k) items i =
     (case parent_id items i of None \<Rightarrow> None | Some p \<Rightarrow> climb k items p)"

definition parent_links_end :: "MenuItem list \<Rightarrow> bool" where
  "parent_links_end items =
     list_all (\<lambda>y. climb (length items) items (item_id y) = None) items"

text \<open>The parent test of the second pass, on the store, and the children it collects.\<close>

definition linked :: "(int \<rightharpoonup> menu_node) \<Rightarrow> MenuItem \<Rightarrow> int option" where
  "linked h y =
     (case parentId (props y) of
        None \<Rightarrow> None
      | Some p \<Rightarrow> if p = 0 \<or> h p = None then None else Some p)"

definition kids :: "MenuItem list \<Rightarrow> int \<Rightarrow> int list" where
  "kids items i = map item_id (filter (\<lambda>y. parent_of items y = Some i) items)"

subsection \<open>generateRoutes and resolveComponent\<close>

text \<open>
  A route record as \<^verbatim>\<open>generateRoutes\<close> builds it. Its \<^verbatim>\<open>component\<close> is the closure
  \<^verbatim>\<open>() => resolveComponent(item.router!)\<close>, a function of the path alone.
\<close>

record Route =
  route_path :: string
  route_name :: string
  meta_title :: string
  meta_icon :: "string option"
  meta_keepAlive :: bool
  meta_perms :: "string option"

definition navigable :: "MenuItem \<Rightarrow> bool" where
  "navigable item = (type (props item) = 1 \<and> truthy (router (props item)))"

definition route_of :: "MenuItem \<Rightarrow> Route" where
  "route_of item =
     \<lparr> route_path = (case router (props item) of None \<Rightarrow> [] | Some p \<Rightarrow> p),
       route_name = name (props item),
       meta_title = name (props item),
       meta_icon = icon (props item),
       meta_keepAlive = keepAlive (props item),
       meta_perms = perms (props item) \<rparr>"

function traverse :: "MenuItem list \<Rightarrow> Route list" where
  "traverse items =
     concat (map (\<lambda>item.
        (if navigable item then [route_of item] else [])
        @ (case children item of
             None \<Rightarrow> []
           | Some cs \<Rightarrow> if cs \<noteq> [] then traverse cs else [])) items)"
  by pat_completeness auto
termination
  by (relation "measure (size_list size)") (auto dest: children_smaller)

declare traverse.simps [simp del]

text \<open>All nodes of a forest in pre-order, the order \<^verbatim>\<open>traverse\<close> visits them in.\<close>

function preorder :: "MenuItem list \<Rightarrow> MenuItem list" where
  "preorder items =
     concat (map (\<lambda>item. item # (case children item of None \<Rightarrow> [] | Some cs \<Rightarrow> preorder cs)) items)"
  by pat_completeness auto
termination
  by (relation "measure (size_list size)") (auto dest: children_smaller)

declare preorder.simps [simp del]

text \<open>
  The state of the menu store. \<open>menus\<close> is the tree \<^verbatim>\<open>menus.value\<close> denotes, \<open>None\<close> for
  an object graph with a cycle, on which \<^verbatim>\<open>traverse\<close> exhausts the call stack.
\<close>

record menu_store =
  menus :: "MenuItem list option"
  isCollapsed :: bool
  activeMenu :: string

definition fetchMenus ::
  "menu_store \<Rightarrow> error + MenuItem list option \<Rightarrow> (error + MenuItem list option) \<times> menu_store" where
  "fetchMenus ms resp =
     (case resp of
        Inl e \<Rightarrow> (Inl e, ms)
      | Inr d \<Rightarrow>
          let ms1 = ms\<lparr> menus := menu_tree (case d of None \<Rightarrow> [] | Some l \<Rightarrow> l) \<rparr>
          in (Inr (menus ms1), ms1))"

definition generateRoutes :: "menu_store \<Rightarrow> error + Route list" where
  "generateRoutes ms =
     (case menus ms of
        None \<Rightarrow> Inl (Error ''Maximum call stack size exceeded'')
      | Some ts \<Rightarrow> Inr (traverse ts))"

definition visibleMenus :: "menu_store \<Rightarrow> error + MenuItem list" where
  "visibleMenus ms =
     (case menus ms of
        None \<Rightarrow> Inl (Error ''Maximum call stack size exceeded'')
      | Some ts \<Rightarrow> Inr (filterVisibleMenus ts))"



section \<open>Router\<close>

text \<open>
  The route table of the router, as the list of its records. \<^verbatim>\<open>router.addRoute\<close>
  belongs to the routing library. It throws for a record it does not accept, such as one
  whose path its parser refuses, and for a child that has the name of the parent it is
  added to; \<open>accepts\<close>, the library's validation of a record, is a parameter. A record
  that passes and has a name replaces the record registered under that name; one
  without a name is added. The guard calls it with the parent \<^verbatim>\<open>Layout\<close> and takes the
  operation as a whole as a parameter.
\<close>

definition addRoute ::
  "(Route \<Rightarrow> bool) \<Rightarrow> string \<Rightarrow> Route list \<Rightarrow> Route \<Rightarrow> error + Route list" where
  "addRoute accepts parentName tbl r =
     (if \<not> accepts r \<or> route_name r = parentName then Inl (Error ''Invalid route'')
      else Inr ((if route_name r = [] then tbl
                 else filter (\<lambda>x. route_name x \<noteq> route_name r) tbl) @ [r]))"

text \<open>\<^verbatim>\<open>dynamicRoutes.forEach(route => router.addRoute('Layout', route))\<close>: the first
  rejection ends the loop, with the records registered so far in the table.\<close>

fun addRoutes ::
  "(Route list \<Rightarrow> Route \<Rightarrow> error + Route list) \<Rightarrow> Route list \<Rightarrow> Route list
     \<Rightarrow> error option \<times> Route list" where
  "addRoutes add tbl [] = (None, tbl)"
| "addRoutes add tbl (r # rs) =
     (case add tbl r of Inl e \<Rightarrow> (Some e, tbl) | Inr tbl' \<Rightarrow> addRoutes add tbl' rs)"

section \<open>HTTP clients: the response interceptors\<close>

text \<open>
  The body of a response. \<open>env_code\<close> tells a number from a value of another type and
  from a body without the key; \<open>env_message\<close> is \<open>None\<close> for a missing message. The
  payload field is \<^verbatim>\<open>data\<close> for \<^verbatim>\<open>request.ts\<close> and \<^verbatim>\<open>result\<close> for the two other
  clients. What a client resolves with is the payload or the whole body. The toast
  \<^verbatim>\<open>ElMessage.error\<close> and the console output are not modelled.
\<close>

datatype js_code = CodeNumber int | CodeOther | CodeAbsent

record 'a envelope =
  env_code :: js_code
  env_message :: "string option"
  env_payload :: 'a

datatype 'a resolved = Payload 'a | Body "'a envelope"

text \<open>The default messages, in UTF-8.\<close>

definition msg_operation_failed :: string where
  "msg_operation_failed =
     [CHR 0xE6, CHR 0x93, CHR 0x8D, CHR 0xE4, CHR 0xBD, CHR 0x9C,
      CHR 0xE5, CHR 0xA4, CHR 0xB1, CHR 0xE8, CHR 0xB4, CHR 0xA5]"

definition msg_request_failed :: string where
  "msg_request_failed =
     [CHR 0xE8, CHR 0xAF, CHR 0xB7, CHR 0xE6, CHR 0xB1, CHR 0x82,
      CHR 0xE5, CHR 0xA4, CHR 0xB1, CHR 0xE8, CHR 0xB4, CHR 0xA5]"

definition msg_business_error :: string where
  "msg_business_error =
     [CHR 0xE4, CHR 0xB8, CHR 0x9A, CHR 0xE5, CHR 0x8A, CHR 0xA1,
      CHR 0xE9, CHR 0x94, CHR 0x99, CHR 0xE8, CHR 0xAF, CHR 0xAF]"

definition SUCCESS_CODE :: int where
  "SUCCESS_CODE = 1000"

definition BUSINESS_ERROR_CODE :: int where
  "BUSINESS_ERROR_CODE = 1001"

text \<open>\<^verbatim>\<open>request.interceptors.response\<close> of the client in api/request.ts.\<close>

definition request_response :: "'a envelope \<Rightarrow> error + 'a resolved" where
  "request_response d =
     (case env_code d of
        CodeNumber c \<Rightarrow>
          if c = SUCCESS_CODE then Inr (Payload (env_payload d))
          else if c = BUSINESS_ERROR_CODE
            then Inl (Error (or_else (env_message d) msg_operation_failed))
          else Inl (Error (or_else (env_message d) msg_request_failed))
      | _ \<Rightarrow> Inr (Body d))"

text \<open>\<^verbatim>\<open>apiClient.interceptors.response\<close> of the client in api/http.ts.\<close>

definition apiClient_response :: "'a envelope \<Rightarrow> error + 'a resolved" where
  "apiClient_response d =
     (if env_code d \<noteq> CodeNumber 1000
      then Inl (Error (or_else (env_message d) msg_request_failed))
      else Inr (Body d))"

text \<open>\<^verbatim>\<open>http.interceptors.response\<close> of the codex client.\<close>

definition http_response :: "'a envelope \<Rightarrow> error + 'a resolved" where
  "http_response d =
     (if env_code d \<noteq> CodeAbsent
      then (if env_code d = CodeNumber 1000 then Inr (Payload (env_payload d))
            else Inl (Error (or_else (env_message d) msg_business_error)))
      else Inr (Body d))"

section \<open>Navigation guard (router.beforeEach)\<close>

text \<open>
  The target of a navigation with the meta fields the guard reads, the call of
  \<^verbatim>\<open>next\<close> that ends the guard, and the state the guard works on. The progress bar and
  the document title are not modelled.
\<close>

record route_location =
  to_path :: string
  to_fullPath :: string
  to_public :: bool
  to_perms :: "string option"

datatype navigation =
    Proceed
  | Retry
  | RedirectPath string
  | RedirectLogin string

record app_state =
  userStore :: user_store
  menuStore :: menu_store
  routeTable :: "Route list"

text \<open>The body of the \<^verbatim>\<open>try\<close> block: the error thrown, if any, and the state reached.\<close>

definition hydrate ::
  "(Route list \<Rightarrow> Route \<Rightarrow> error + Route list) \<Rightarrow> app_state
     \<Rightarrow> error + person_data \<Rightarrow> error + perms_data \<Rightarrow> error + MenuItem list option
     \<Rightarrow> error option \<times> app_state" where
  "hydrate add st person permsResp menuResp =
     (case fetchUserInfo (userStore st) person permsResp of
        (Inl e, us) \<Rightarrow> (Some e, st\<lparr> userStore := us \<rparr>)
      | (Inr u, us) \<Rightarrow>
          (case fetchMenus (menuStore st) menuResp of
             (Inl e, ms) \<Rightarrow> (Some e, st\<lparr> userStore := us, menuStore := ms \<rparr>)
           | (Inr m, ms) \<Rightarrow>
               (case generateRoutes ms of
                  Inl e \<Rightarrow> (Some e, st\<lparr> userStore := us, menuStore := ms \<rparr>)
                | Inr dynamicRoutes \<Rightarrow>
                    (case addRoutes add (routeTable st) dynamicRoutes of
                       (r, tbl) \<Rightarrow> (r, st\<lparr> userStore := us, menuStore := ms, routeTable := tbl \<rparr>)))))"

definition beforeEach ::
  "(Route list \<Rightarrow> Route \<Rightarrow> error + Route list) \<Rightarrow> route_location \<Rightarrow> app_state
     \<Rightarrow> error + person_data \<Rightarrow> error + perms_data \<Rightarrow> error + MenuItem list option
     \<Rightarrow> navigation \<times> app_state" where
  "beforeEach add to st person permsResp menuResp =
     (if to_public to then
        (if to_path to = ''/login'' \<and> isLoggedIn (userStore st) then (RedirectPath ''/'', st)
         else (Proceed, st))
      else if \<not> isLoggedIn (userStore st) then (RedirectLogin (to_fullPath to), st)
      else if userInfo (userStore st) = None then
        (case hydrate add st person permsResp menuResp of
           (None, st1) \<Rightarrow> (Retry, st1)
         | (Some e, st1) \<Rightarrow> (RedirectPath ''/login'', st1\<lparr> userStore := logout (userStore st1) \<rparr>))
      else if (case to_perms to of
                 None \<Rightarrow> False
               | Some p \<Rightarrow> p \<noteq> [] \<and> \<not> hasPermission (userStore st) p)
        then (RedirectPath ''/403'', st)
      else (Proceed, st))"

section \<open>Concrete inputs\<close>

definition mk :: "int \<Rightarrow> int option \<Rightarrow> int \<Rightarrow> MenuItem" where
  "mk i p ord =
     MenuItem \<lparr> menu_id = i, parentId = p, name = ''m'', router = None, perms = None,
                type = 0, icon = None, orderNum = ord, isShow = True, keepAlive = False \<rparr> None"

definition page :: "int \<Rightarrow> string \<Rightarrow> string \<Rightarrow> MenuItem" where
  "page i n r =
     MenuItem \<lparr> menu_id = i, parentId = None, name = n, router = Some r, perms = None,
                type = 1, icon = None, orderNum = 1, isShow = True, keepAlive = False \<rparr> (Some [])"

definition three_items :: "MenuItem list" where
  "three_items = [mk 1 None 1, mk 2 (Some 1) 5, mk 3 (Some 1) 2]"

definition three_tree :: "MenuItem list" where
  "three_tree =
     [MenuItem (props (mk 1 None 1))
        (Some [MenuItem (props (mk 2 (Some 1) 5)) (Some []),
               MenuItem (props (mk 3 (Some 1) 2)) (Some [])])]"

definition loop_items :: "MenuItem list" where
  "loop_items = [mk 1 (Some 1) 1]"

definition guarded_target :: route_location where
  "guarded_target = \<lparr> to_path = ''/rk/supply'', to_fullPath = ''/rk/supply?page=2'',
                       to_public = False, to_perms = None \<rparr>"

definition stored_token_state :: app_state where
  "stored_token_state =
     \<lparr> userStore = empty_store\<lparr> token := ''t'' \<rparr>,
       menuStore = \<lparr> menus = Some [], isCollapsed = False, activeMenu = [] \<rparr>,
       routeTable = [] \<rparr>"

definition orphan_items :: "MenuItem list" where
  "orphan_items = [mk 2 (Some 1) 1, mk 1 None 2, mk 5 (Some 9) 3]"

definition orphan_tree :: "MenuItem list" where
  "orphan_tree =
     [MenuItem (props (mk 1 None 2)) (Some [MenuItem (props (mk 2 (Some 1) 1)) (Some [])]),
      MenuItem (props (mk 5 (Some 9) 3)) (Some [])]"

definition same_name_tree :: "MenuItem list" where
  "same_name_tree = [page 1 ''List'' ''/rk/a'', page 2 ''List'' ''/rk/b'']"

definition supply_tree :: "MenuItem list" where
  "supply_tree =
     [MenuItem (props (mk 1 None 1))
        (Some [page 2 ''Supply'' ''/rk/supply'', page 3 ''Demand'' ''rk/demand''])]"


text \<open>A validation that refuses one path and accepts every other record.\<close>

definition accepts_except :: "string \<Rightarrow> Route \<Rightarrow> bool" where
  "accepts_except bad r = (route_path r \<noteq> bad)"

definition person_payload :: person_data where
  "person_payload = \<lparr> person_id = 7, person_username = ''alice'', person_nickName = None,
                       person_email = None, person_phone = None, person_avatar = None,
                       person_departmentId = None, person_departmentName = None,
                       person_roleIds = None, person_roles = None \<rparr>"

definition reject_all :: "Route list \<Rightarrow> Route \<Rightarrow> error + Route list" where
  "reject_all tbl r = Inl (Error ''Invalid route'')"

section \<open>Permission evaluator\<close>

text \<open>
  C5. For a session whose profile's username is the administrator name, the three
  permission queries answer true for every argument (the empty string, an unknown code,
  the empty list), whatever the stored permission list is.
\<close>

theorem admin_answers_true:
  assumes "userInfo s = Some u" and "username u = ''admin''"
  shows "hasPermission s code \<and> hasAnyPermission s codes \<and> hasAllPermissions s codes"
  using assms by (simp add: hasPermission_def hasAnyPermission_def hasAllPermissions_def isAdmin_def)

theorem admin_answers_true_witness:
  "userInfo (session_of ''admin'' []) = Some (profile_of ''admin'')
   \<and> username (profile_of ''admin'') = ''admin''
   \<and> hasPermission (session_of ''admin'' []) []
   \<and> hasPermission (session_of ''admin'' []) ''no:such:code''
   \<and> hasAnyPermission (session_of ''admin'' []) []
   \<and> hasAllPermissions (session_of ''admin'' []) [''no:such:code'', []]"
proof -
  have u: "userInfo (session_of ''admin'' []) = Some (profile_of ''admin'')"
    by (simp add: session_of_def)
  have n: "username (profile_of ''admin'') = ''admin''"
    by (simp add: profile_of_def)
  show ?thesis
    using u n admin_answers_true [OF u n, of "[]" "[]"]
      admin_answers_true [OF u n, of "''no:such:code''" "[''no:such:code'', []]"]
    by simp
qed

text \<open>
  C10. For a session that is not the administrator's, the queries on the empty list are
  vacuous: \<^verbatim>\<open>hasAllPermissions([])\<close> is true and \<^verbatim>\<open>hasAnyPermission([])\<close> is false,
  whatever the stored permission list is.
\<close>

theorem empty_list_queries:
  assumes "\<not> isAdmin s"
  shows "hasAllPermissions s [] \<and> \<not> hasAnyPermission s []"
  using assms by (simp add: hasAnyPermission_def hasAllPermissions_def)

theorem empty_list_queries_witness:
  "\<not> isAdmin (session_of ''alice'' [''rk:supply:list''])
   \<and> hasAllPermissions (session_of ''alice'' [''rk:supply:list'']) []
   \<and> \<not> hasAnyPermission (session_of ''alice'' [''rk:supply:list'']) []"
proof -
  have a: "\<not> isAdmin (session_of ''alice'' [''rk:supply:list''])"
    by (simp add: isAdmin_def session_of_def profile_of_def)
  show ?thesis using a empty_list_queries [OF a] by simp
qed

section \<open>Session invariant and token refresh\<close>

lemma fetchUserInfo_Inr:
  "fst (fetchUserInfo s p q) = Inr u \<Longrightarrow>
     userInfo (snd (fetchUserInfo s p q)) = Some u \<and> token (snd (fetchUserInfo s p q)) = token s"
  by (auto simp: fetchUserInfo_def Let_def split: sum.splits)

lemma login_Inr:
  "fst (login s r p q) = Inr d \<Longrightarrow>
     r = Inr d \<and> token (snd (login s r p q)) = data_token d \<and> userInfo (snd (login s r p q)) \<noteq> None"
  by (auto simp: login_def fetchUserInfo_def Let_def split: sum.splits prod.splits)

lemma refreshUserToken_Inr:
  "fst (refreshUserToken s r) = Inr d \<Longrightarrow>
     token (snd (refreshUserToken s r)) = data_token d
     \<and> userInfo (snd (refreshUserToken s r)) = userInfo s"
  by (auto simp: refreshUserToken_def Let_def split: sum.splits if_splits)

text \<open>
  C3 (the claim as written fails). A login whose login request resolves and whose profile
  request is rejected ends with the token stored and no profile.
\<close>

theorem login_then_profile_rejected_counterexample:
  "fst (login empty_store login_ok rejected rejected) = Inl (Error ''Request failed'')
   \<and> token (snd (login empty_store login_ok rejected rejected)) = ''abc''
   \<and> userInfo (snd (login empty_store login_ok rejected rejected)) = None
   \<and> \<not> token_profile_paired (snd (login empty_store login_ok rejected rejected))"
  by (simp add: token_profile_paired_def login_def fetchUserInfo_def login_ok_def rejected_def
      empty_store_def Let_def truthy_def or_else_def)

text \<open>
  C3 (amended). After logout token and profile are both absent. After a login or a
  profile fetch of a logged-in session that resolves, with a non-empty token from the
  server, both are present. A resolved token refresh keeps the profile, so a session that
  has a profile stays paired. A login rejected by the login endpoint changes nothing. A
  login rejected at the profile request keeps the new token and leaves the profile as
  it was, absent for a session that had none. A login rejected at the permission
  request keeps the new token and the profile just fetched, in memory and not in
  storage.
\<close>

theorem token_profile_after_operations:
  "token_profile_paired (logout s)
   \<and> token (logout s) = [] \<and> userInfo (logout s) = None
   \<and> (fst (login s r p q) = Inr d \<and> data_token d \<noteq> [] \<longrightarrow>
        token_profile_paired (snd (login s r p q)) \<and> token (snd (login s r p q)) \<noteq> [])
   \<and> (r = Inl e \<longrightarrow> login s r p q = (Inl e, s))
   \<and> (r = Inr d \<and> p = Inl e \<longrightarrow>
        fst (login s r p q) = Inl e
        \<and> token (snd (login s r p q)) = data_token d
        \<and> userInfo (snd (login s r p q)) = userInfo s)
   \<and> (r = Inr d \<and> p = Inr pd \<and> q = Inl e \<longrightarrow>
        fst (login s r p q) = Inl e
        \<and> token (snd (login s r p q)) = data_token d
        \<and> userInfo (snd (login s r p q)) \<noteq> None
        \<and> wa_user_info (localStorage (snd (login s r p q))) = wa_user_info (localStorage s))
   \<and> (token s \<noteq> [] \<and> fst (fetchUserInfo s p q) = Inr u \<longrightarrow>
        token_profile_paired (snd (fetchUserInfo s p q)))
   \<and> (userInfo s \<noteq> None \<and> fst (refreshUserToken s r) = Inr d \<and> data_token d \<noteq> [] \<longrightarrow>
        token_profile_paired (snd (refreshUserToken s r)))"
proof -
  have a: "token_profile_paired (logout s) \<and> token (logout s) = [] \<and> userInfo (logout s) = None"
    by (simp add: token_profile_paired_def logout_def)
  have b: "fst (login s r p q) = Inr d \<and> data_token d \<noteq> [] \<longrightarrow>
        token_profile_paired (snd (login s r p q)) \<and> token (snd (login s r p q)) \<noteq> []"
    using login_Inr [of s r p q d] by (auto simp: token_profile_paired_def)
  have c: "r = Inl e \<longrightarrow> login s r p q = (Inl e, s)"
    by (simp add: login_def)
  have f: "r = Inr d \<and> p = Inl e \<longrightarrow>
        fst (login s r p q) = Inl e
        \<and> token (snd (login s r p q)) = data_token d
        \<and> userInfo (snd (login s r p q)) = userInfo s"
    by (simp add: login_def fetchUserInfo_def Let_def)
  have g: "r = Inr d \<and> p = Inr pd \<and> q = Inl e \<longrightarrow>
        fst (login s r p q) = Inl e
        \<and> token (snd (login s r p q)) = data_token d
        \<and> userInfo (snd (login s r p q)) \<noteq> None
        \<and> wa_user_info (localStorage (snd (login s r p q))) = wa_user_info (localStorage s)"
    by (simp add: login_def fetchUserInfo_def Let_def)
  have d: "token s \<noteq> [] \<and> fst (fetchUserInfo s p q) = Inr u \<longrightarrow>
        token_profile_paired (snd (fetchUserInfo s p q))"
    using fetchUserInfo_Inr [of s p q u] by (auto simp: token_profile_paired_def)
  have e: "userInfo s \<noteq> None \<and> fst (refreshUserToken s r) = Inr d \<and> data_token d \<noteq> [] \<longrightarrow>
        token_profile_paired (snd (refreshUserToken s r))"
    using refreshUserToken_Inr [of s r d] by (auto simp: token_profile_paired_def)
  from a b c d e f g show ?thesis by blast
qed

theorem token_profile_after_operations_witness:
  "fst (login empty_store login_ok person_ok perms_ok)
     = Inr \<lparr> data_token = ''abc'', data_refreshToken = Some ''r1'' \<rparr>
   \<and> token_profile_paired (snd (login empty_store login_ok person_ok perms_ok))
   \<and> token (snd (login empty_store login_ok person_ok perms_ok)) = ''abc''
   \<and> token_profile_paired (logout (snd (login empty_store login_ok person_ok perms_ok)))
   \<and> login empty_store rejected person_ok perms_ok = (Inl (Error ''Request failed''), empty_store)
   \<and> fst (login empty_store login_ok rejected perms_ok) = Inl (Error ''Request failed'')
   \<and> token (snd (login empty_store login_ok rejected perms_ok)) = ''abc''
   \<and> userInfo (snd (login empty_store login_ok rejected perms_ok)) = None
   \<and> fst (login empty_store login_ok person_ok rejected) = Inl (Error ''Request failed'')
   \<and> token (snd (login empty_store login_ok person_ok rejected)) = ''abc''
   \<and> userInfo (snd (login empty_store login_ok person_ok rejected)) \<noteq> None
   \<and> wa_user_info (localStorage (snd (login empty_store login_ok person_ok rejected))) = None
   \<and> token (session_of ''alice'' []) \<noteq> []
   \<and> fst (fetchUserInfo (session_of ''alice'' []) person_ok perms_ok) \<noteq> rejected
   \<and> token_profile_paired (snd (fetchUserInfo (session_of ''alice'' []) person_ok perms_ok))
   \<and> token_profile_paired
        (snd (refreshUserToken ((session_of ''alice'' [])\<lparr> refreshToken := ''r0'' \<rparr>) login_ok))"
proof -
  let ?d = "\<lparr> data_token = ''abc'', data_refreshToken = Some ''r1'' \<rparr>"
  let ?s = "(session_of ''alice'' [])\<lparr> refreshToken := ''r0'' \<rparr>"
  let ?e = "Error ''Request failed''"
  have l: "fst (login empty_store login_ok person_ok perms_ok) = Inr ?d"
    by (simp add: login_def fetchUserInfo_def login_ok_def person_ok_def perms_ok_def Let_def)
  have t: "token (snd (login empty_store login_ok person_ok perms_ok)) = ''abc''"
    using login_Inr [OF l] by simp
  have f: "\<exists>u. fst (fetchUserInfo (session_of ''alice'' []) person_ok perms_ok) = Inr u"
    by (simp add: fetchUserInfo_def person_ok_def perms_ok_def Let_def)
  then obtain u where fu: "fst (fetchUserInfo (session_of ''alice'' []) person_ok perms_ok) = Inr u" ..
  have r: "fst (refreshUserToken ?s login_ok) = Inr ?d"
    by (simp add: refreshUserToken_def login_ok_def session_of_def Let_def)
  have tk: "token (session_of ''alice'' []) \<noteq> []" "userInfo ?s \<noteq> None"
    by (simp_all add: session_of_def)
  have eq: "login_ok = Inr ?d" "(rejected :: error + login_data) = Inl ?e"
    "(rejected :: error + person_data) = Inl ?e" "(rejected :: error + perms_data) = Inl ?e"
    "person_ok = Inr person_payload"
    by (simp_all add: login_ok_def rejected_def person_ok_def person_payload_def)
  have st: "userInfo empty_store = None" "wa_user_info (localStorage empty_store) = None"
    by (simp_all add: empty_store_def no_storage_def)
  note w1 = token_profile_after_operations
    [where s = "snd (login empty_store login_ok person_ok perms_ok)" and r = rejected
       and p = person_ok and q = perms_ok and d = ?d and e = ?e and u = u and pd = person_payload]
  note w2 = token_profile_after_operations
    [where s = empty_store and r = login_ok and p = person_ok and q = perms_ok and d = ?d
       and e = ?e and u = u and pd = person_payload]
  note w3 = token_profile_after_operations
    [where s = empty_store and r = rejected and p = person_ok and q = perms_ok and d = ?d
       and e = ?e and u = u and pd = person_payload]
  note w4 = token_profile_after_operations
    [where s = "session_of ''alice'' []" and r = rejected and p = person_ok and q = perms_ok
       and d = ?d and e = ?e and u = u and pd = person_payload]
  note w5 = token_profile_after_operations
    [where s = ?s and r = login_ok and p = person_ok and q = perms_ok and d = ?d
       and e = ?e and u = u and pd = person_payload]
  note w6 = token_profile_after_operations
    [where s = empty_store and r = login_ok and p = rejected and q = perms_ok and d = ?d
       and e = ?e and u = u and pd = person_payload]
  note w7 = token_profile_after_operations
    [where s = empty_store and r = login_ok and p = person_ok and q = rejected and d = ?d
       and e = ?e and u = u and pd = person_payload]
  have a1: "token_profile_paired (snd (login empty_store login_ok person_ok perms_ok))"
    using w2 l by simp
  have a2: "token_profile_paired (logout (snd (login empty_store login_ok person_ok perms_ok)))"
    using w1 by blast
  have a3: "login empty_store rejected person_ok perms_ok = (Inl ?e, empty_store)"
    using w3 eq(2) by blast
  have a4: "fst (login empty_store login_ok rejected perms_ok) = Inl ?e
      \<and> token (snd (login empty_store login_ok rejected perms_ok)) = ''abc''
      \<and> userInfo (snd (login empty_store login_ok rejected perms_ok)) = None"
    using w6 eq(1,3) st by simp
  have a5: "fst (login empty_store login_ok person_ok rejected) = Inl ?e
      \<and> token (snd (login empty_store login_ok person_ok rejected)) = ''abc''
      \<and> userInfo (snd (login empty_store login_ok person_ok rejected)) \<noteq> None
      \<and> wa_user_info (localStorage (snd (login empty_store login_ok person_ok rejected))) = None"
    using w7 eq(1,4,5) st by simp
  have a6: "token_profile_paired (snd (fetchUserInfo (session_of ''alice'' []) person_ok perms_ok))"
    using w4 tk(1) fu by blast
  have a7: "token_profile_paired (snd (refreshUserToken ?s login_ok))"
    using w5 tk(2) r by simp
  have a8: "fst (fetchUserInfo (session_of ''alice'' []) person_ok perms_ok) \<noteq> rejected"
    using fu by (simp add: rejected_def)
  from l t a1 a2 a3 a4 a5 a6 a7 a8 tk(1) show ?thesis by blast
qed

text \<open>
  C4 (the claim as written fails). A refresh without a refresh token is rejected and the
  session stays as it was, token included; no logout takes place.
\<close>

theorem refresh_without_token_counterexample:
  "fst (refreshUserToken (session_of ''alice'' []) login_ok) = Inl (Error ''No refresh token'')
   \<and> token (snd (refreshUserToken (session_of ''alice'' []) login_ok)) = ''t''
   \<and> snd (refreshUserToken (session_of ''alice'' []) login_ok) \<noteq> logout (session_of ''alice'' [])"
  by (simp add: refreshUserToken_def session_of_def empty_store_def logout_def)

text \<open>
  C4 (amended). When the token refresh fails, either because no refresh token is stored
  or because the refresh request is rejected, the operation is rejected with that error
  and the session, in memory and in storage, is exactly what it was: the store does not
  log out.
\<close>

theorem refresh_failure_keeps_session:
  assumes "fst (refreshUserToken s r) = Inl e"
  shows "snd (refreshUserToken s r) = s
         \<and> (if refreshToken s = [] then e = Error ''No refresh token'' else r = Inl e)"
  using assms by (auto simp: refreshUserToken_def Let_def split: sum.splits if_splits)

theorem refresh_failure_keeps_session_witness:
  "fst (refreshUserToken ((session_of ''alice'' [])\<lparr> refreshToken := ''r0'' \<rparr>) rejected)
     = Inl (Error ''Request failed'')
   \<and> snd (refreshUserToken ((session_of ''alice'' [])\<lparr> refreshToken := ''r0'' \<rparr>) rejected)
     = (session_of ''alice'' [])\<lparr> refreshToken := ''r0'' \<rparr>"
proof -
  have f: "fst (refreshUserToken ((session_of ''alice'' [])\<lparr> refreshToken := ''r0'' \<rparr>) rejected)
     = Inl (Error ''Request failed'')"
    by (simp add: refreshUserToken_def rejected_def session_of_def)
  show ?thesis using f refresh_failure_keeps_session [OF f] by simp
qed

section \<open>The menu tree builder\<close>

subsection \<open>The store after the two passes\<close>

lemma index_fold_other:
  "i \<notin> item_id ` set xs \<Longrightarrow> fold index_item xs m i = m i"
  by (induction xs arbitrary: m) (auto simp: index_item_def)

lemma index_fold_None:
  "(fold index_item xs m i = None) = (i \<notin> item_id ` set xs \<and> m i = None)"
  by (induction xs arbitrary: m) (auto simp: index_item_def)

lemma index_fold_distinct:
  "distinct (map item_id xs) \<Longrightarrow> y \<in> set xs \<Longrightarrow>
   fold index_item xs m (item_id y) = Some \<lparr> node_props = props y, node_children = [] \<rparr>"
proof (induction xs arbitrary: m)
  case Nil
  then show ?case by simp
next
  case (Cons x xs)
  show ?case
  proof (cases "y = x")
    case True
    with Cons.prems have "item_id x \<notin> item_id ` set xs" by auto
    then have "fold index_item xs (index_item x m) (item_id x) = index_item x m (item_id x)"
      by (rule index_fold_other)
    moreover have "index_item x m (item_id x) = Some \<lparr> node_props = props x, node_children = [] \<rparr>"
      by (simp add: index_item_def)
    ultimately show ?thesis using True by simp
  next
    case False
    with Cons show ?thesis by auto
  qed
qed

lemma first_pass_None: "(first_pass items i = None) = (i \<notin> item_id ` set items)"
  by (simp add: first_pass_def index_fold_None)

lemma first_pass_distinct:
  "distinct (map item_id items) \<Longrightarrow> y \<in> set items \<Longrightarrow>
   first_pass items (item_id y) = Some \<lparr> node_props = props y, node_children = [] \<rparr>"
  by (simp add: first_pass_def index_fold_distinct)

lemma index_fold_leaf:
  "(\<And>j nd. m j = Some nd \<Longrightarrow> node_children nd = []) \<Longrightarrow>
   fold index_item xs m i = Some nd \<Longrightarrow> node_children nd = []"
proof (induction xs arbitrary: m)
  case Nil
  then show ?case by simp
next
  case (Cons x xs)
  show ?case
  proof (rule Cons.IH [of "index_item x m"])
    show "node_children nd' = []" if "index_item x m j = Some nd'" for j nd'
      using that Cons.prems(1) [of j nd'] by (auto simp: index_item_def split: if_splits)
    show "fold index_item xs (index_item x m) i = Some nd" using Cons.prems(2) by simp
  qed
qed

lemma first_pass_leaf: "first_pass items i = Some nd \<Longrightarrow> node_children nd = []"
  unfolding first_pass_def by (rule index_fold_leaf [of Map.empty]) auto

text \<open>One step of the second pass, by the parent test on the store before the step.\<close>

lemma attach_roots:
  "roots (attach y g) = roots g @ (if linked (heap g) y = None then [item_id y] else [])"
  by (auto simp: attach_def linked_def Let_def split: option.splits)

lemma attach_heap:
  "heap (attach y g) i =
     map_option (\<lambda>nd. nd\<lparr> node_children := node_children nd
                          @ (if linked (heap g) y = Some i then [item_id y] else []) \<rparr>) (heap g i)"
  by (cases "heap g i") (auto simp: attach_def linked_def Let_def split: option.splits)

lemma attach_heap_None: "(heap (attach y g) i = None) = (heap g i = None)"
  by (simp add: attach_heap)

lemma linked_attach: "linked (heap (attach y g)) = linked (heap g)"
  by (rule ext) (simp add: linked_def attach_heap_None split: option.splits)

lemma fold_attach_roots:
  "roots (fold attach ys g) = roots g @ map item_id (filter (\<lambda>y. linked (heap g) y = None) ys)"
  by (induction ys arbitrary: g) (auto simp: attach_roots linked_attach)

lemma fold_attach_heap:
  "heap (fold attach ys g) i =
     map_option (\<lambda>nd. nd\<lparr> node_children := node_children nd
                          @ map item_id (filter (\<lambda>y. linked (heap g) y = Some i) ys) \<rparr>) (heap g i)"
proof (induction ys arbitrary: g)
  case Nil
  then show ?case by (cases "heap g i") auto
next
  case (Cons y ys)
  have "heap (fold attach (y # ys) g) i
      = map_option (\<lambda>nd. nd\<lparr> node_children := node_children nd
                          @ map item_id (filter (\<lambda>y. linked (heap g) y = Some i) ys) \<rparr>)
          (heap (attach y g) i)"
    using Cons.IH [of "attach y g"] by (simp only: fold_simps linked_attach)
  then show ?case
    by (cases "heap g i") (auto simp: attach_heap)
qed

lemma linked_first_pass: "linked (first_pass items) y = parent_of items y"
  by (auto simp: linked_def parent_of_def first_pass_None split: option.splits)

text \<open>The result: roots and children are the records in input order.\<close>

lemma buildMenuTree_roots:
  "roots (buildMenuTree items) = map item_id (filter (\<lambda>y. parent_of items y = None) items)"
  by (simp add: buildMenuTree_def fold_attach_roots linked_first_pass)

lemma buildMenuTree_children:
  "heap (buildMenuTree items) i = Some nd \<Longrightarrow>
   node_children nd = map item_id (filter (\<lambda>y. parent_of items y = Some i) items)"
  by (auto simp: buildMenuTree_def fold_attach_heap linked_first_pass dest: first_pass_leaf)

lemma buildMenuTree_heap:
  "distinct (map item_id items) \<Longrightarrow> y \<in> set items \<Longrightarrow>
   heap (buildMenuTree items) (item_id y)
     = Some \<lparr> node_props = props y, node_children = kids items (item_id y) \<rparr>"
  by (simp add: buildMenuTree_def fold_attach_heap linked_first_pass first_pass_distinct kids_def)

lemma buildMenuTree_heap_None:
  "(heap (buildMenuTree items) i = None) = (i \<notin> item_id ` set items)"
  by (simp add: buildMenuTree_def fold_attach_heap first_pass_None)

subsection \<open>Sibling order\<close>

lemma node_sorted_level:
  "node_sorted t = (case children t of None \<Rightarrow> True | Some xs \<Rightarrow> level_sorted xs)"
  by (cases t) (simp add: level_sorted_def split: option.splits)

lemma filterVisibleMenus_sorted: "level_sorted (filterVisibleMenus ts)"
proof (induction ts rule: filterVisibleMenus.induct)
  case (1 items)
  let ?vis = "filter (\<lambda>item. isShow (props item) \<and> type (props item) \<noteq> 2) items"
  let ?copy = "\<lambda>item. MenuItem (props item)
       (case children item of None \<Rightarrow> None | Some cs \<Rightarrow> Some (filterVisibleMenus cs))"
  have "node_sorted (?copy item)" if "item \<in> set ?vis" for item
    using that 1 [of item] by (auto simp: node_sorted_level split: option.splits)
  then have "list_all node_sorted (map ?copy ?vis)"
    by (simp add: list_all_iff)
  then have "list_all node_sorted (sort_key (\<lambda>m. orderNum (props m)) (map ?copy ?vis))"
    by (simp add: list_all_iff)
  moreover have "sorted (map (\<lambda>m. orderNum (props m))
      (sort_key (\<lambda>m. orderNum (props m)) (map ?copy ?vis)))"
    by (rule sorted_sort_key)
  ultimately show ?case
    unfolding level_sorted_def by (subst filterVisibleMenus.simps, subst filterVisibleMenus.simps) simp
qed

lemma three_heap:
  "heap (buildMenuTree three_items) =
     [1 \<mapsto> \<lparr> node_props = props (mk 1 None 1), node_children = [2, 3] \<rparr>,
      2 \<mapsto> \<lparr> node_props = props (mk 2 (Some 1) 5), node_children = [] \<rparr>,
      3 \<mapsto> \<lparr> node_props = props (mk 3 (Some 1) 2), node_children = [] \<rparr>]"
  by (rule ext) (simp add: three_items_def buildMenuTree_def first_pass_def index_item_def attach_def
      item_id_def mk_def Let_def)

lemma three_roots: "roots (buildMenuTree three_items) = [1]"
  by (simp add: three_items_def buildMenuTree_def first_pass_def index_item_def attach_def
      item_id_def mk_def Let_def)

lemma three_menu_tree: "menu_tree three_items = Some three_tree"
  by (simp add: menu_tree_def forest_of_def three_heap three_roots)
     (simp add: three_items_def three_tree_def numeral_3_eq_3)

lemma three_filtered:
  "filterVisibleMenus three_tree =
     [MenuItem (props (mk 1 None 1))
        (Some [MenuItem (props (mk 3 (Some 1) 2)) (Some []),
               MenuItem (props (mk 2 (Some 1) 5)) (Some [])])]"
  by (simp add: three_tree_def filterVisibleMenus.simps mk_def)

text \<open>
  C1 (the claim as written fails). The builder does not sort: a parent listed before two
  children with display orders 5 and 2 keeps them in that order.
\<close>

theorem unfiltered_children_unsorted_counterexample:
  "distinct (map item_id three_items)
   \<and> menu_tree three_items = Some three_tree
   \<and> map (\<lambda>m. orderNum (props m)) (the (children (hd three_tree))) = [5, 2]
   \<and> \<not> level_sorted three_tree"
  by (simp add: three_menu_tree) (simp add: three_items_def three_tree_def level_sorted_def item_id_def mk_def)

text \<open>
  C1 (amended). The tree the visibility pass returns has its siblings in non-decreasing
  display order at every level, for every tree it is given. The builder keeps the
  siblings in input order: the roots are the unattached records and the children of a
  node are the records attached to it, both as the input lists them.
\<close>

theorem filtered_levels_sorted:
  "level_sorted (filterVisibleMenus ts)
   \<and> roots (buildMenuTree items) = map item_id (filter (\<lambda>y. parent_of items y = None) items)
   \<and> (\<forall>i nd. heap (buildMenuTree items) i = Some nd \<longrightarrow>
        node_children nd = map item_id (filter (\<lambda>y. parent_of items y = Some i) items))"
  using filterVisibleMenus_sorted buildMenuTree_roots buildMenuTree_children by blast

theorem filtered_levels_sorted_witness:
  "level_sorted (filterVisibleMenus three_tree)
   \<and> filterVisibleMenus three_tree =
     [MenuItem (props (mk 1 None 1))
        (Some [MenuItem (props (mk 3 (Some 1) 2)) (Some []),
               MenuItem (props (mk 2 (Some 1) 5)) (Some [])])]
   \<and> roots (buildMenuTree three_items) = [1]
   \<and> node_children \<lparr> node_props = props (mk 1 None 1), node_children = [2, 3] \<rparr>
       = map item_id (filter (\<lambda>y. parent_of three_items y = Some 1) three_items)"
proof -
  have h: "heap (buildMenuTree three_items) 1
      = Some \<lparr> node_props = props (mk 1 None 1), node_children = [2, 3] \<rparr>"
    by (simp add: three_heap)
  show ?thesis
    using filtered_levels_sorted [of three_tree three_items] h three_filtered three_roots
    by blast
qed

subsection \<open>Building, then flattening\<close>

lemma those_map_Some:
  "(those (map f xs) = Some ys) = (list_all2 (\<lambda>x y. f x = Some y) xs ys)"
proof (induction xs arbitrary: ys)
  case Nil
  then show ?case by auto
next
  case (Cons x xs)
  show ?case
    by (cases "f x"; cases ys) (auto simp: Cons.IH)
qed

lemma those_map_None:
  "(those (map f xs) = None) = (\<exists>x\<in>set xs. f x = None)"
  by (induction xs) (auto split: option.splits)

lemma map_all2:
  "list_all2 (\<lambda>x y. g y = f x) xs ys \<Longrightarrow> map g ys = map f xs"
  by (induction xs ys rule: list_all2_induct) auto

lemma count_list_concat:
  "count_list (concat xss) x = sum_list (map (\<lambda>xs. count_list xs x) xss)"
  by (induction xss) auto

lemma count_list_distinct:
  "distinct xs \<Longrightarrow> count_list xs x = (if x \<in> set xs then 1 else 0)"
  by (induction xs) auto

lemma sum_list_all2:
  "list_all2 (\<lambda>x y. g y = f x) xs ys \<Longrightarrow> sum_list (map g ys) = sum_list (map f xs)"
  by (induction xs ys rule: list_all2_induct) auto

lemma sum_list_sum_swap:
  "sum_list (map (\<lambda>c. \<Sum>k<j. f k c) cs) = (\<Sum>k<j. sum_list (map (f k) cs))"
  by (induction cs) (auto simp: sum.distrib)

lemma sum_list_indicator:
  "distinct cs \<Longrightarrow>
   sum_list (map (\<lambda>c. if v = Some c then 1 else 0) cs) = (if \<exists>c\<in>set cs. v = Some c then 1 else (0::nat))"
  by (induction cs) auto

text \<open>Parent links and the children lists of the store.\<close>

lemma find_distinct:
  "distinct (map item_id items) \<Longrightarrow> y \<in> set items \<Longrightarrow>
   find (\<lambda>z. item_id z = item_id y) items = Some y"
  by (induction items) auto

lemma find_None_ids:
  "(find (\<lambda>z. item_id z = i) items = None) = (i \<notin> item_id ` set items)"
  by (auto simp: find_None_iff)

lemma parent_id_item:
  "distinct (map item_id items) \<Longrightarrow> y \<in> set items \<Longrightarrow>
   parent_id items (item_id y) = parent_of items y"
  by (simp add: parent_id_def find_distinct)

lemma parent_id_outside:
  "i \<notin> item_id ` set items \<Longrightarrow> parent_id items i = None"
  using find_None_ids [of i items] by (simp add: parent_id_def)

lemma parent_id_in_ids: "parent_id items x = Some p \<Longrightarrow> p \<in> item_id ` set items"
  by (auto simp: parent_id_def parent_of_def split: option.splits if_splits)

lemma kids_distinct: "distinct (map item_id items) \<Longrightarrow> distinct (kids items i)"
  unfolding kids_def by (simp add: distinct_map_filter)

lemma kids_iff:
  assumes "distinct (map item_id items)"
  shows "(c \<in> set (kids items i)) = (parent_id items c = Some i)"
proof
  assume "c \<in> set (kids items i)"
  then obtain y where "y \<in> set items" "parent_of items y = Some i" "c = item_id y"
    by (auto simp: kids_def)
  then show "parent_id items c = Some i"
    using assms by (simp add: parent_id_item)
next
  assume p: "parent_id items c = Some i"
  then have "c \<in> item_id ` set items"
    using parent_id_outside [of c items] by auto
  then obtain y where y: "y \<in> set items" "c = item_id y" by auto
  with p assms have "parent_of items y = Some i" by (simp add: parent_id_item)
  with y show "c \<in> set (kids items i)" by (auto simp: kids_def)
qed

lemma kids_subset: "set (kids items i) \<subseteq> item_id ` set items"
  by (auto simp: kids_def)

lemma climb_snoc:
  "climb (Suc k) items x =
     (case climb k items x of None \<Rightarrow> None | Some c \<Rightarrow> parent_id items c)"
proof (induction k arbitrary: x)
  case 0
  then show ?case by (simp split: option.splits)
next
  case (Suc k)
  show ?case
  proof (cases "parent_id items x")
    case None
    then show ?thesis by simp
  next
    case (Some p)
    then show ?thesis using Suc.IH [of p] by simp
  qed
qed

lemma climb_kids:
  assumes "distinct (map item_id items)"
  shows "(\<exists>c\<in>set (kids items i). climb k items x = Some c) = (climb (Suc k) items x = Some i)"
  by (auto simp: climb_snoc kids_iff [OF assms] simp del: climb.simps split: option.splits)

lemma climb_in_ids:
  "x \<in> item_id ` set items \<Longrightarrow> climb k items x = Some c \<Longrightarrow> c \<in> item_id ` set items"
proof (induction k arbitrary: x)
  case 0
  then show ?case by simp
next
  case (Suc k)
  from Suc.prems(2) obtain p where p: "parent_id items x = Some p" "climb k items p = Some c"
    by (auto split: option.splits)
  from p(1) have "p \<in> item_id ` set items" by (rule parent_id_in_ids)
  from this p(2) show ?case by (rule Suc.IH)
qed

lemma climb_None_mono:
  "climb k items x = None \<Longrightarrow> k \<le> k' \<Longrightarrow> climb k' items x = None"
proof (induction k' arbitrary: k)
  case 0
  then show ?case by simp
next
  case (Suc k')
  show ?case
  proof (cases "k = Suc k'")
    case True
    with Suc.prems show ?thesis by simp
  next
    case False
    with Suc.prems have "climb k' items x = None" by (auto intro: Suc.IH)
    then show ?thesis by (simp add: climb_snoc del: climb.simps)
  qed
qed

text \<open>
  An identifier occurs in the flattened tree of a node once for every number of steps
  after which its parent links reach the node.
\<close>

lemma flatten_count:
  assumes d: "distinct (map item_id items)"
  shows "tree_of j (heap (buildMenuTree items)) i = Some t \<Longrightarrow>
         count_list (flatten t) x = (\<Sum>k<j. if climb k items x = Some i then 1 else 0)"
proof (induction j arbitrary: i t)
  case 0
  then show ?case by simp
next
  case (Suc j)
  let ?h = "heap (buildMenuTree items)"
  from Suc.prems obtain nd cs where nd: "?h i = Some nd"
      and cs: "those (map (tree_of j ?h) (node_children nd)) = Some cs"
      and t: "t = MenuItem (node_props nd) (Some cs)"
    by (auto split: option.splits)
  from nd have "i \<in> item_id ` set items"
    using buildMenuTree_heap_None [of items i] by auto
  then obtain y where y: "y \<in> set items" "i = item_id y" by auto
  with nd d have ndv: "nd = \<lparr> node_props = props y, node_children = kids items i \<rparr>"
    by (simp add: buildMenuTree_heap)
  from cs ndv have all2: "list_all2 (\<lambda>c t'. tree_of j ?h c = Some t') (kids items i) cs"
    by (simp add: those_map_Some)
  have "list_all2 (\<lambda>c t'. count_list (flatten t') x
            = (\<Sum>k<j. if climb k items x = Some c then 1 else 0)) (kids items i) cs"
    using all2 by (rule list_all2_mono) (simp add: Suc.IH)
  then have "sum_list (map (\<lambda>t'. count_list (flatten t') x) cs)
      = sum_list (map (\<lambda>c. \<Sum>k<j. if climb k items x = Some c then 1 else 0) (kids items i))"
    by (rule sum_list_all2)
  also have "\<dots> = (\<Sum>k<j. sum_list (map (\<lambda>c. if climb k items x = Some c then 1 else 0) (kids items i)))"
    by (rule sum_list_sum_swap)
  also have "\<dots> = (\<Sum>k<j. if climb (Suc k) items x = Some i then 1 else 0)"
    by (simp add: sum_list_indicator [OF kids_distinct [OF d]] climb_kids [OF d])
  finally have kidsum: "sum_list (map (\<lambda>t'. count_list (flatten t') x) cs)
      = (\<Sum>k<j. if climb (Suc k) items x = Some i then 1 else 0)" .
  have "count_list (flatten t) x
      = (if x = i then 1 else 0) + sum_list (map (\<lambda>t'. count_list (flatten t') x) cs)"
    using y by (auto simp: t ndv count_list_concat comp_def item_id_def)
  also have "\<dots> = (\<Sum>k<Suc j. if climb k items x = Some i then 1 else 0)"
    by (simp only: kidsum sum.lessThan_Suc_shift) auto
  finally show ?case .
qed

lemma tree_of_props:
  "tree_of j h i = Some t \<Longrightarrow> \<exists>nd. h i = Some nd \<and> props t = node_props nd"
  by (cases j) (auto split: option.splits)

lemma tree_of_succeeds:
  assumes d: "distinct (map item_id items)"
  shows "i \<in> item_id ` set items \<Longrightarrow> \<forall>x. climb j items x \<noteq> Some i \<Longrightarrow>
         tree_of j (heap (buildMenuTree items)) i \<noteq> None"
proof (induction j arbitrary: i)
  case 0
  then show ?case by simp
next
  case (Suc j)
  let ?h = "heap (buildMenuTree items)"
  from Suc.prems(1) obtain y where y: "y \<in> set items" "i = item_id y" by auto
  with d have nd: "?h i = Some \<lparr> node_props = props y, node_children = kids items i \<rparr>"
    by (simp add: buildMenuTree_heap)
  have "tree_of j ?h c \<noteq> None" if c: "c \<in> set (kids items i)" for c
  proof (rule Suc.IH)
    show "c \<in> item_id ` set items" using c kids_subset by blast
    show "\<forall>x. climb j items x \<noteq> Some c"
    proof
      fix x
      show "climb j items x \<noteq> Some c"
      proof
        assume "climb j items x = Some c"
        with c have "climb (Suc j) items x = Some i"
          using climb_kids [OF d, of i j x] by blast
        with Suc.prems(2) show False by blast
      qed
    qed
  qed
  then have "those (map (tree_of j ?h) (kids items i)) \<noteq> None"
    by (simp add: those_map_None)
  with nd show ?case by auto
qed

lemma roots_iff:
  assumes "distinct (map item_id items)"
  shows "(r \<in> set (roots (buildMenuTree items)))
           = (r \<in> item_id ` set items \<and> parent_id items r = None)"
  using assms by (auto simp: buildMenuTree_roots parent_id_item)

lemma roots_distinct:
  "distinct (map item_id items) \<Longrightarrow> distinct (roots (buildMenuTree items))"
  by (simp add: buildMenuTree_roots distinct_map_filter)

lemma root_hit_iff:
  assumes d: "distinct (map item_id items)" and x: "x \<in> item_id ` set items"
  shows "(\<exists>r\<in>set (roots (buildMenuTree items)). climb k items x = Some r)
           = (climb k items x \<noteq> None \<and> climb (Suc k) items x = None)"
  using climb_in_ids [OF x, of k]
  by (auto simp: roots_iff [OF d] climb_snoc simp del: climb.simps split: option.splits)

lemma unique_root_level:
  assumes d: "distinct (map item_id items)" and x: "x \<in> item_id ` set items"
    and e: "climb n items x = None"
  shows "(\<Sum>k<n. if \<exists>r\<in>set (roots (buildMenuTree items)). climb k items x = Some r then 1 else 0)
           = (1::nat)"
proof -
  define m where "m = (LEAST k. climb k items x = None)"
  have mN: "climb m items x = None"
    unfolding m_def using e by (rule LeastI)
  have mn: "m \<le> n"
    unfolding m_def using e by (rule Least_le)
  have m0: "m \<noteq> 0"
    using mN by (cases m) auto
  have below: "climb k items x \<noteq> None" if "k < m" for k
    using that not_less_Least [of k "\<lambda>k. climb k items x = None"] by (simp add: m_def)
  have iff: "(climb k items x \<noteq> None \<and> climb (Suc k) items x = None) = (k = m - 1)" for k
  proof
    assume a: "climb k items x \<noteq> None \<and> climb (Suc k) items x = None"
    then have "m \<le> Suc k" unfolding m_def by (auto intro: Least_le)
    moreover have "k < m"
    proof (rule ccontr)
      assume "\<not> k < m"
      then have "m \<le> k" by simp
      with mN have "climb k items x = None" by (rule climb_None_mono)
      with a show False by simp
    qed
    ultimately show "k = m - 1" by simp
  next
    assume k: "k = m - 1"
    with m0 have "Suc k = m" "k < m" by simp_all
    then show "climb k items x \<noteq> None \<and> climb (Suc k) items x = None"
      using mN below [of k] by (simp del: climb.simps)
  qed
  have "(\<Sum>k<n. if \<exists>r\<in>set (roots (buildMenuTree items)). climb k items x = Some r then 1 else 0)
      = (\<Sum>k<n. if k = m - 1 then 1 else (0::nat))"
    by (simp only: root_hit_iff [OF d x] iff)
  also have "\<dots> = 1"
    using m0 mn by (simp add: sum.delta')
  finally show ?thesis .
qed

lemma outside_no_root:
  assumes x: "x \<notin> item_id ` set items"
  shows "(\<Sum>k<n. if \<exists>r\<in>set (roots (buildMenuTree items)). climb k items x = Some r then 1 else 0)
           = (0::nat)"
proof -
  have "\<not> (\<exists>r\<in>set (roots (buildMenuTree items)). climb k items x = Some r)" for k
  proof (cases k)
    case 0
    with x show ?thesis by (auto simp: buildMenuTree_roots)
  next
    case (Suc k')
    with x show ?thesis by (simp add: parent_id_outside)
  qed
  then show ?thesis by simp
qed

lemma build_then_flatten_core:
  assumes d: "distinct (map item_id items)" and e: "parent_links_end items"
  shows "\<exists>ts. forest_of (length items) (buildMenuTree items) = Some ts
           \<and> mset (concat (map flatten ts)) = mset (map item_id items)
           \<and> map props ts = map props (filter (\<lambda>y. parent_of items y = None) items)"
proof -
  let ?n = "length items"
  let ?g = "buildMenuTree items"
  let ?h = "heap ?g"
  have ends: "climb ?n items x = None" if "x \<in> item_id ` set items" for x
    using that e by (auto simp: parent_links_end_def list_all_iff)
  have top: "climb ?n items x \<noteq> Some r" if r: "r \<in> set (roots ?g)" for r x
  proof (cases "x \<in> item_id ` set items")
    case True
    then show ?thesis by (simp add: ends)
  next
    case False
    from r have "items \<noteq> []" by (auto simp: buildMenuTree_roots)
    then obtain m where "?n = Suc m" by (cases items) auto
    with False show ?thesis by (simp add: parent_id_outside)
  qed
  have "tree_of ?n ?h r \<noteq> None" if r: "r \<in> set (roots ?g)" for r
  proof (rule tree_of_succeeds [OF d])
    show "r \<in> item_id ` set items" using r by (auto simp: buildMenuTree_roots)
    show "\<forall>x. climb ?n items x \<noteq> Some r" using top [OF r] by blast
  qed
  then have "those (map (tree_of ?n ?h) (roots ?g)) \<noteq> None"
    by (simp add: those_map_None)
  then obtain ts where ts: "forest_of ?n ?g = Some ts"
    by (auto simp: forest_of_def)
  then have all2: "list_all2 (\<lambda>r t. tree_of ?n ?h r = Some t) (roots ?g) ts"
    by (simp add: forest_of_def those_map_Some)
  have cnt: "count_list (concat (map flatten ts)) x = count_list (map item_id items) x" for x
  proof -
    have "list_all2 (\<lambda>r t. count_list (flatten t) x
              = (\<Sum>k<?n. if climb k items x = Some r then 1 else 0)) (roots ?g) ts"
      using all2 by (rule list_all2_mono) (simp add: flatten_count [OF d])
    then have "sum_list (map (\<lambda>t. count_list (flatten t) x) ts)
        = sum_list (map (\<lambda>r. \<Sum>k<?n. if climb k items x = Some r then 1 else 0) (roots ?g))"
      by (rule sum_list_all2)
    also have "\<dots> = (\<Sum>k<?n. sum_list (map (\<lambda>r. if climb k items x = Some r then 1 else 0) (roots ?g)))"
      by (rule sum_list_sum_swap)
    also have "\<dots> = (\<Sum>k<?n. if \<exists>r\<in>set (roots ?g). climb k items x = Some r then 1 else 0)"
      by (simp only: sum_list_indicator [OF roots_distinct [OF d]])
    also have "\<dots> = (if x \<in> item_id ` set items then 1 else 0)"
      using unique_root_level [OF d _ ends, of x] outside_no_root [of x items ?n] by auto
    also have "\<dots> = count_list (map item_id items) x"
      using d by (simp add: count_list_distinct)
    finally show ?thesis by (simp add: count_list_concat comp_def)
  qed
  have ms: "mset (concat (map flatten ts)) = mset (map item_id items)"
    by (rule multiset_eqI) (simp only: count_mset cnt)
  have "list_all2 (\<lambda>r t. props t = node_props (the (?h r))) (roots ?g) ts"
    using all2 by (rule list_all2_mono) (auto dest: tree_of_props)
  then have "map props ts = map (\<lambda>r. node_props (the (?h r))) (roots ?g)"
    by (rule map_all2)
  also have "\<dots> = map props (filter (\<lambda>y. parent_of items y = None) items)"
    using d by (simp add: buildMenuTree_roots buildMenuTree_heap comp_def)
  finally have pr: "map props ts = map props (filter (\<lambda>y. parent_of items y = None) items)" .
  from ts ms pr show ?thesis by blast
qed

lemma loop_roots: "roots (buildMenuTree loop_items) = []"
  by (simp add: loop_items_def buildMenuTree_def first_pass_def index_item_def attach_def
      item_id_def mk_def Let_def)

lemma loop_heap:
  "heap (buildMenuTree loop_items) 1
     = Some \<lparr> node_props = props (mk 1 (Some 1) 1), node_children = [1] \<rparr>"
  by (simp add: loop_items_def buildMenuTree_def first_pass_def index_item_def attach_def
      item_id_def mk_def Let_def)

text \<open>
  C2 (the claim as written fails). A record that names itself as its parent is attached
  to its own children list and is no root: the forest is empty and the record is lost.
\<close>

theorem cyclic_parents_counterexample:
  "distinct (map item_id loop_items)
   \<and> heap (buildMenuTree loop_items) 1
       = Some \<lparr> node_props = props (mk 1 (Some 1) 1), node_children = [1] \<rparr>
   \<and> roots (buildMenuTree loop_items) = []
   \<and> menu_tree loop_items = Some []
   \<and> mset (concat (map flatten [])) \<noteq> mset (map item_id loop_items)"
  by (simp add: menu_tree_def forest_of_def loop_roots loop_heap)
     (simp add: loop_items_def item_id_def mk_def)

text \<open>
  C2 (amended). For a flat list with distinct identifiers whose parent links end (no
  record is its own ancestor), the builder returns a finite forest, flattening it in
  pre-order yields the multiset of the identifiers of the input, and its roots are, in
  input order, the records whose parent identifier is null, zero or absent from the
  input; in particular every record whose parent is null or absent is a root.
\<close>

theorem build_then_flatten:
  assumes d: "distinct (map item_id items)" and e: "parent_links_end items"
  shows "\<exists>ts. menu_tree items = Some ts
           \<and> mset (concat (map flatten ts)) = mset (map item_id items)
           \<and> map props ts = map props (filter (\<lambda>y. parent_of items y = None) items)
           \<and> (\<forall>y\<in>set items.
                 (case parentId (props y) of None \<Rightarrow> True | Some p \<Rightarrow> p \<notin> item_id ` set items)
                 \<longrightarrow> props y \<in> props ` set ts)"
proof -
  from build_then_flatten_core [OF d e] obtain ts where
    ts: "menu_tree items = Some ts" and ms: "mset (concat (map flatten ts)) = mset (map item_id items)"
    and pr: "map props ts = map props (filter (\<lambda>y. parent_of items y = None) items)"
    by (auto simp: menu_tree_def)
  have "props y \<in> props ` set ts"
    if y: "y \<in> set items"
      and n: "case parentId (props y) of None \<Rightarrow> True | Some p \<Rightarrow> p \<notin> item_id ` set items" for y
  proof -
    from n have "parent_of items y = None"
      by (auto simp: parent_of_def split: option.splits)
    with y have "props y \<in> set (map props (filter (\<lambda>y. parent_of items y = None) items))"
      by auto
    then have "props y \<in> set (map props ts)" by (simp only: pr)
    then show ?thesis by simp
  qed
  with ts ms pr show ?thesis by blast
qed

lemma orphan_heap:
  "heap (buildMenuTree orphan_items) =
     [2 \<mapsto> \<lparr> node_props = props (mk 2 (Some 1) 1), node_children = [] \<rparr>,
      1 \<mapsto> \<lparr> node_props = props (mk 1 None 2), node_children = [2] \<rparr>,
      5 \<mapsto> \<lparr> node_props = props (mk 5 (Some 9) 3), node_children = [] \<rparr>]"
  by (rule ext) (simp add: orphan_items_def buildMenuTree_def first_pass_def index_item_def attach_def
      item_id_def mk_def Let_def)

lemma orphan_roots: "roots (buildMenuTree orphan_items) = [1, 5]"
  by (simp add: orphan_items_def buildMenuTree_def first_pass_def index_item_def attach_def
      item_id_def mk_def Let_def)

lemma orphan_menu_tree: "menu_tree orphan_items = Some orphan_tree"
  by (simp add: menu_tree_def forest_of_def orphan_heap orphan_roots)
     (simp add: orphan_items_def orphan_tree_def numeral_3_eq_3)

lemma orphan_links_end: "parent_links_end orphan_items"
  by (simp add: parent_links_end_def orphan_items_def parent_id_def parent_of_def item_id_def mk_def)

theorem build_then_flatten_witness:
  "distinct (map item_id orphan_items) \<and> parent_links_end orphan_items
   \<and> menu_tree orphan_items = Some orphan_tree
   \<and> mset (concat (map flatten orphan_tree)) = mset (map item_id orphan_items)
   \<and> concat (map flatten orphan_tree) = [1, 2, 5]
   \<and> map props orphan_tree = [props (mk 1 None 2), props (mk 5 (Some 9) 3)]"
proof -
  have d: "distinct (map item_id orphan_items)"
    by (simp add: orphan_items_def item_id_def mk_def)
  from build_then_flatten [OF d orphan_links_end] obtain ts where
    "menu_tree orphan_items = Some ts" "mset (concat (map flatten ts)) = mset (map item_id orphan_items)"
    by blast
  then have "mset (concat (map flatten orphan_tree)) = mset (map item_id orphan_items)"
    by (simp add: orphan_menu_tree)
  moreover have "map props orphan_tree = [props (mk 1 None 2), props (mk 5 (Some 9) 3)]"
    by (simp add: orphan_tree_def)
  moreover have "concat (map flatten orphan_tree) = [1, 2, 5]"
    by (simp add: orphan_tree_def mk_def)
  ultimately show ?thesis using d orphan_links_end orphan_menu_tree by simp
qed

section \<open>Route synthesis\<close>

lemma traverse_preorder: "traverse ts = map route_of (filter navigable (preorder ts))"
proof (induction ts rule: traverse.induct)
  case (1 items)
  have step: "(if navigable item then [route_of item] else [])
          @ (case children item of None \<Rightarrow> [] | Some cs \<Rightarrow> if cs \<noteq> [] then traverse cs else [])
      = map route_of (filter navigable
          (item # (case children item of None \<Rightarrow> [] | Some cs \<Rightarrow> preorder cs)))"
    if "item \<in> set items" for item
  proof (cases "children item")
    case None
    then show ?thesis by simp
  next
    case (Some cs)
    show ?thesis
    proof (cases "cs = []")
      case True
      with Some show ?thesis by (simp add: preorder.simps [of "[]"])
    next
      case False
      with Some that show ?thesis using 1 [of item cs] by simp
    qed
  qed
  have eq: "map (\<lambda>item. (if navigable item then [route_of item] else [])
          @ (case children item of None \<Rightarrow> [] | Some cs \<Rightarrow> if cs \<noteq> [] then traverse cs else [])) items
      = map (\<lambda>item. map route_of (filter navigable
          (item # (case children item of None \<Rightarrow> [] | Some cs \<Rightarrow> preorder cs)))) items"
    by (rule map_cong [OF refl step])
  have "map route_of (filter navigable (preorder items))
      = concat (map (\<lambda>item. map route_of (filter navigable
          (item # (case children item of None \<Rightarrow> [] | Some cs \<Rightarrow> preorder cs)))) items)"
    by (subst preorder.simps) (simp only: map_concat filter_concat map_map comp_def)
  also have "\<dots> = traverse items"
    by (subst traverse.simps) (simp only: eq)
  finally show ?case by simp
qed

lemma addRoutes_named:
  assumes "distinct (map route_name rs)" and "[] \<notin> set (map route_name rs)"
    and "parentName \<notin> set (map route_name rs)" and "list_all accepts rs"
  shows "addRoutes (addRoute accepts parentName) tbl rs
     = (None, filter (\<lambda>x. route_name x \<notin> set (map route_name rs)) tbl @ rs)"
  using assms
proof (induction rs arbitrary: tbl)
  case Nil
  then show ?case by simp
next
  case (Cons r rs)
  have keep: "filter (\<lambda>x. route_name x \<notin> set (map route_name rs)) [r] = [r]"
    using Cons.prems by auto
  have rn: "route_name r \<noteq> []" "route_name r \<noteq> parentName" "accepts r"
    using Cons.prems by auto
  have rest: "distinct (map route_name rs)" "[] \<notin> set (map route_name rs)"
    "parentName \<notin> set (map route_name rs)" "list_all accepts rs"
    using Cons.prems by auto
  have narrow: "filter (\<lambda>x. route_name x \<notin> set (map route_name rs))
          (filter (\<lambda>x. route_name x \<noteq> route_name r) tbl)
      = filter (\<lambda>x. route_name x \<notin> set (map route_name (r # rs))) tbl"
    by (auto intro: filter_cong)
  have "addRoutes (addRoute accepts parentName) tbl (r # rs)
      = addRoutes (addRoute accepts parentName)
          (filter (\<lambda>x. route_name x \<noteq> route_name r) tbl @ [r]) rs"
    using rn by (simp add: addRoute_def)
  also have "\<dots> = (None, filter (\<lambda>x. route_name x \<notin> set (map route_name rs))
          (filter (\<lambda>x. route_name x \<noteq> route_name r) tbl @ [r]) @ rs)"
    using rest by (rule Cons.IH)
  also have "\<dots> = (None, filter (\<lambda>x. route_name x \<notin> set (map route_name (r # rs))) tbl @ r # rs)"
    using keep narrow by (simp del: set_map)
  finally show ?case .
qed

lemma page_navigable: "r \<noteq> [] \<Longrightarrow> navigable (page i n r)"
  by (simp add: navigable_def page_def truthy_def)

lemma page_children: "children (page i n r) = Some []"
  by (simp add: page_def)

lemma route_of_page:
  "route_of (page i n r) =
     \<lparr> route_path = r, route_name = n, meta_title = n, meta_icon = None,
       meta_keepAlive = False, meta_perms = None \<rparr>"
  by (simp add: route_of_def page_def)

lemma traverse_leaves:
  "traverse [page 1 ''List'' ''/rk/a'', page 2 ''List'' ''/rk/b'']
     = [route_of (page 1 ''List'' ''/rk/a''), route_of (page 2 ''List'' ''/rk/b'')]"
  by (subst traverse.simps) (simp add: page_navigable page_children)

lemma preorder_leaves:
  "preorder [page 1 ''List'' ''/rk/a'', page 2 ''List'' ''/rk/b'']
     = [page 1 ''List'' ''/rk/a'', page 2 ''List'' ''/rk/b'']"
  by (subst preorder.simps) (simp add: page_children preorder.simps [of "[]"])

lemma supply_routes:
  "traverse supply_tree = [route_of (page 2 ''Supply'' ''/rk/supply''), route_of (page 3 ''Demand'' ''rk/demand'')]"
  by (simp add: supply_tree_def traverse.simps page_navigable navigable_def mk_def)
     (simp add: page_def traverse.simps truthy_def)

text \<open>
  C8 (the claim as written fails). Two navigable nodes with the same name give two route
  records with that name; the second replaces the first in the table, which then holds
  one record for two navigable nodes, after the first run and after the second. A
  navigable node without a name gives a record that the second run adds once more. A
  navigable node named like the parent record, or one whose path the router refuses,
  ends the registration with an error and has no record in the table.
\<close>

theorem synthesis_counterexample:
  "filter navigable (preorder same_name_tree) = same_name_tree
   \<and> length same_name_tree = 2
   \<and> generateRoutes \<lparr> menus = Some same_name_tree, isCollapsed = False, activeMenu = [] \<rparr>
       = Inr [route_of (page 1 ''List'' ''/rk/a''), route_of (page 2 ''List'' ''/rk/b'')]
   \<and> addRoutes (addRoute (\<lambda>r. True) ''Layout'') []
        [route_of (page 1 ''List'' ''/rk/a''), route_of (page 2 ''List'' ''/rk/b'')]
       = (None, [route_of (page 2 ''List'' ''/rk/b'')])
   \<and> addRoutes (addRoute (\<lambda>r. True) ''Layout'') [route_of (page 2 ''List'' ''/rk/b'')]
        [route_of (page 1 ''List'' ''/rk/a''), route_of (page 2 ''List'' ''/rk/b'')]
       = (None, [route_of (page 2 ''List'' ''/rk/b'')])
   \<and> navigable (page 1 [] ''/rk/a'')
   \<and> addRoutes (addRoute (\<lambda>r. True) ''Layout'') [] [route_of (page 1 [] ''/rk/a'')]
       = (None, [route_of (page 1 [] ''/rk/a'')])
   \<and> addRoutes (addRoute (\<lambda>r. True) ''Layout'') [route_of (page 1 [] ''/rk/a'')]
        [route_of (page 1 [] ''/rk/a'')]
       = (None, [route_of (page 1 [] ''/rk/a''), route_of (page 1 [] ''/rk/a'')])
   \<and> navigable (page 1 ''Layout'' ''/rk/a'')
   \<and> addRoutes (addRoute (\<lambda>r. True) ''Layout'') [] [route_of (page 1 ''Layout'' ''/rk/a'')]
       = (Some (Error ''Invalid route''), [])
   \<and> navigable (page 1 ''X'' ''/rk/x:a:b+'')
   \<and> addRoutes (addRoute (accepts_except ''/rk/x:a:b+'') ''Layout'') []
        [route_of (page 1 ''X'' ''/rk/x:a:b+'')]
       = (Some (Error ''Invalid route''), [])"
proof -
  have a: "filter navigable (preorder same_name_tree) = same_name_tree"
    by (simp add: same_name_tree_def preorder_leaves page_navigable)
  have b: "generateRoutes \<lparr> menus = Some same_name_tree, isCollapsed = False, activeMenu = [] \<rparr>
       = Inr [route_of (page 1 ''List'' ''/rk/a''), route_of (page 2 ''List'' ''/rk/b'')]"
    by (simp add: generateRoutes_def same_name_tree_def traverse_leaves)
  have c: "addRoutes (addRoute (\<lambda>r. True) ''Layout'') []
        [route_of (page 1 ''List'' ''/rk/a''), route_of (page 2 ''List'' ''/rk/b'')]
       = (None, [route_of (page 2 ''List'' ''/rk/b'')])"
    by (simp add: addRoute_def route_of_page)
  have d: "addRoutes (addRoute (\<lambda>r. True) ''Layout'') [route_of (page 2 ''List'' ''/rk/b'')]
        [route_of (page 1 ''List'' ''/rk/a''), route_of (page 2 ''List'' ''/rk/b'')]
       = (None, [route_of (page 2 ''List'' ''/rk/b'')])"
    by (simp add: addRoute_def route_of_page)
  have e: "length same_name_tree = 2"
    by (simp add: same_name_tree_def)
  have f: "addRoutes (addRoute (\<lambda>r. True) ''Layout'') [] [route_of (page 1 [] ''/rk/a'')]
       = (None, [route_of (page 1 [] ''/rk/a'')])"
    by (simp add: addRoute_def route_of_page)
  have g: "addRoutes (addRoute (\<lambda>r. True) ''Layout'') [route_of (page 1 [] ''/rk/a'')]
        [route_of (page 1 [] ''/rk/a'')]
       = (None, [route_of (page 1 [] ''/rk/a''), route_of (page 1 [] ''/rk/a'')])"
    by (simp add: addRoute_def route_of_page)
  have h: "addRoutes (addRoute (\<lambda>r. True) ''Layout'') [] [route_of (page 1 ''Layout'' ''/rk/a'')]
       = (Some (Error ''Invalid route''), [])"
    by (simp add: addRoute_def route_of_page)
  have i: "addRoutes (addRoute (accepts_except ''/rk/x:a:b+'') ''Layout'') []
        [route_of (page 1 ''X'' ''/rk/x:a:b+'')]
       = (Some (Error ''Invalid route''), [])"
    by (simp add: addRoute_def route_of_page accepts_except_def)
  have n: "navigable (page 1 [] ''/rk/a'')" "navigable (page 1 ''Layout'' ''/rk/a'')"
    "navigable (page 1 ''X'' ''/rk/x:a:b+'')"
    by (simp_all add: page_navigable)
  from a b c d e f g h i n show ?thesis by blast
qed

text \<open>
  C8 (amended). For a menu tree whose navigable nodes have pairwise different, non-empty
  names, none of them the name of the parent record \<^verbatim>\<open>Layout\<close>, and whose route records
  the router accepts, \<^verbatim>\<open>generateRoutes\<close> returns one record per navigable node, in
  pre-order; registering them succeeds and leaves exactly these records under their
  names in the table, and registering them a second time leaves the table, and so its
  size, as it was after the first.
\<close>

theorem synthesis_twice:
  assumes m: "menus ms = Some ts"
    and n1: "distinct (map route_name (traverse ts))"
    and n2: "[] \<notin> set (map route_name (traverse ts))"
    and n3: "''Layout'' \<notin> set (map route_name (traverse ts))"
    and n4: "list_all accepts (traverse ts)"
  shows "\<exists>rs tbl1.
           generateRoutes ms = Inr rs
           \<and> rs = map route_of (filter navigable (preorder ts))
           \<and> addRoutes (addRoute accepts ''Layout'') tbl rs = (None, tbl1)
           \<and> addRoutes (addRoute accepts ''Layout'') tbl1 rs = (None, tbl1)
           \<and> filter (\<lambda>x. route_name x \<in> set (map route_name rs)) tbl1 = rs
           \<and> length tbl1 = length (filter (\<lambda>x. route_name x \<notin> set (map route_name rs)) tbl) + length rs"
proof -
  let ?rs = "traverse ts"
  let ?N = "set (map route_name ?rs)"
  let ?t1 = "filter (\<lambda>x. route_name x \<notin> ?N) tbl @ ?rs"
  have g: "generateRoutes ms = Inr ?rs"
    using m by (simp add: generateRoutes_def)
  have first: "addRoutes (addRoute accepts ''Layout'') tbl ?rs = (None, ?t1)"
    using n1 n2 n3 n4 by (rule addRoutes_named)
  have keep: "filter (\<lambda>x. route_name x \<notin> ?N) ?t1 = filter (\<lambda>x. route_name x \<notin> ?N) tbl"
    by (auto simp: filter_empty_conv)
  have "addRoutes (addRoute accepts ''Layout'') ?t1 ?rs
      = (None, filter (\<lambda>x. route_name x \<notin> ?N) ?t1 @ ?rs)"
    using n1 n2 n3 n4 by (rule addRoutes_named)
  then have second: "addRoutes (addRoute accepts ''Layout'') ?t1 ?rs = (None, ?t1)"
    by (simp only: keep)
  have once: "filter (\<lambda>x. route_name x \<in> ?N) ?t1 = ?rs"
    by (auto simp: filter_empty_conv filter_id_conv)
  have len: "length ?t1 = length (filter (\<lambda>x. route_name x \<notin> ?N) tbl) + length ?rs"
    by simp
  from g first second once len traverse_preorder [of ts] show ?thesis by blast
qed

theorem synthesis_twice_witness:
  "generateRoutes \<lparr> menus = Some supply_tree, isCollapsed = False, activeMenu = [] \<rparr>
     = Inr [route_of (page 2 ''Supply'' ''/rk/supply''), route_of (page 3 ''Demand'' ''rk/demand'')]
   \<and> addRoutes (addRoute (accepts_except ''/rk/x:a:b+'') ''Layout'') []
        [route_of (page 2 ''Supply'' ''/rk/supply''), route_of (page 3 ''Demand'' ''rk/demand'')]
     = (None, [route_of (page 2 ''Supply'' ''/rk/supply''), route_of (page 3 ''Demand'' ''rk/demand'')])
   \<and> addRoutes (addRoute (accepts_except ''/rk/x:a:b+'') ''Layout'')
        [route_of (page 2 ''Supply'' ''/rk/supply''), route_of (page 3 ''Demand'' ''rk/demand'')]
        [route_of (page 2 ''Supply'' ''/rk/supply''), route_of (page 3 ''Demand'' ''rk/demand'')]
     = (None, [route_of (page 2 ''Supply'' ''/rk/supply''), route_of (page 3 ''Demand'' ''rk/demand'')])"
proof -
  let ?ms = "\<lparr> menus = Some supply_tree, isCollapsed = False, activeMenu = [] \<rparr>"
  let ?acc = "accepts_except ''/rk/x:a:b+''"
  have m: "menus ?ms = Some supply_tree" by simp
  have n1: "distinct (map route_name (traverse supply_tree))"
    by (simp add: supply_routes route_of_page)
  have n2: "[] \<notin> set (map route_name (traverse supply_tree))"
    by (simp add: supply_routes route_of_page)
  have n3: "''Layout'' \<notin> set (map route_name (traverse supply_tree))"
    by (simp add: supply_routes route_of_page)
  have n4: "list_all ?acc (traverse supply_tree)"
    by (simp add: supply_routes route_of_page accepts_except_def)
  from synthesis_twice [OF m n1 n2 n3 n4, of "[]"] obtain rs tbl1 where
    r: "generateRoutes ?ms = Inr rs" "addRoutes (addRoute ?acc ''Layout'') [] rs = (None, tbl1)"
       "addRoutes (addRoute ?acc ''Layout'') tbl1 rs = (None, tbl1)"
    by (elim exE conjE)
  have rs: "rs = traverse supply_tree"
    using r(1) by (simp add: generateRoutes_def)
  have "tbl1 = rs"
    using r(2) addRoutes_named [OF n1 n2 n3 n4, of "[]"] by (simp add: rs)
  with r rs show ?thesis by (simp add: supply_routes)
qed



section \<open>Response envelopes\<close>

text \<open>
  C7 (the claim as written fails). The client of api/http.ts resolves a response of code
  1000 with the whole body, not with the payload; and a rejection whose server message
  is empty carries the default text of the client.
\<close>

theorem whole_body_counterexample:
  "apiClient_response \<lparr> env_code = CodeNumber 1000, env_message = Some ''ok'', env_payload = (5::nat) \<rparr>
     = Inr (Body \<lparr> env_code = CodeNumber 1000, env_message = Some ''ok'', env_payload = 5 \<rparr>)
   \<and> apiClient_response \<lparr> env_code = CodeNumber 1000, env_message = Some ''ok'', env_payload = (5::nat) \<rparr>
     \<noteq> Inr (Payload 5)
   \<and> request_response \<lparr> env_code = CodeNumber 1001, env_message = Some [], env_payload = (5::nat) \<rparr>
     = Inl (Error msg_operation_failed)
   \<and> msg_operation_failed \<noteq> []"
  by (simp add: apiClient_response_def request_response_def SUCCESS_CODE_def BUSINESS_ERROR_CODE_def
      or_else_def msg_operation_failed_def)

text \<open>
  C7 (amended). For a response whose code is the number 1000, the clients of
  api/request.ts and of the codex front end resolve with the unwrapped payload, and the
  client of api/http.ts resolves with the whole body. For a numeric code other than 1000
  all three reject with an error whose message is the server's message when that is
  non-empty, and the default text of the client otherwise.
\<close>

theorem envelope_handling:
  "(env_code d = CodeNumber 1000 \<longrightarrow>
      request_response d = Inr (Payload (env_payload d))
      \<and> http_response d = Inr (Payload (env_payload d))
      \<and> apiClient_response d = Inr (Body d))
   \<and> (env_code d = CodeNumber c \<and> c \<noteq> 1000 \<longrightarrow>
      request_response d = Inl (Error (or_else (env_message d)
          (if c = 1001 then msg_operation_failed else msg_request_failed)))
      \<and> http_response d = Inl (Error (or_else (env_message d) msg_business_error))
      \<and> apiClient_response d = Inl (Error (or_else (env_message d) msg_request_failed)))
   \<and> (env_message d = Some m \<and> m \<noteq> [] \<longrightarrow> or_else (env_message d) dflt = m)"
  by (simp add: request_response_def http_response_def apiClient_response_def
      SUCCESS_CODE_def BUSINESS_ERROR_CODE_def or_else_def)

theorem envelope_handling_witness:
  "request_response \<lparr> env_code = CodeNumber 1000, env_message = Some ''ok'', env_payload = (5::nat) \<rparr>
     = Inr (Payload 5)
   \<and> http_response \<lparr> env_code = CodeNumber 1000, env_message = Some ''ok'', env_payload = (5::nat) \<rparr>
     = Inr (Payload 5)
   \<and> request_response \<lparr> env_code = CodeNumber 1001, env_message = Some ''no stock'', env_payload = (5::nat) \<rparr>
     = Inl (Error ''no stock'')
   \<and> http_response \<lparr> env_code = CodeNumber 1001, env_message = Some ''no stock'', env_payload = (5::nat) \<rparr>
     = Inl (Error ''no stock'')
   \<and> apiClient_response \<lparr> env_code = CodeNumber 1001, env_message = Some ''no stock'', env_payload = (5::nat) \<rparr>
     = Inl (Error ''no stock'')"
  using envelope_handling
      [of "\<lparr> env_code = CodeNumber 1000, env_message = Some ''ok'', env_payload = (5::nat) \<rparr>" 1000 "''ok''"]
    envelope_handling
      [of "\<lparr> env_code = CodeNumber 1001, env_message = Some ''no stock'', env_payload = (5::nat) \<rparr>"
          1001 "''no stock''" msg_operation_failed]
    envelope_handling
      [of "\<lparr> env_code = CodeNumber 1001, env_message = Some ''no stock'', env_payload = (5::nat) \<rparr>"
          1001 "''no stock''" msg_business_error]
    envelope_handling
      [of "\<lparr> env_code = CodeNumber 1001, env_message = Some ''no stock'', env_payload = (5::nat) \<rparr>"
          1001 "''no stock''" msg_request_failed]
  by simp

section \<open>Hydration in the navigation guard\<close>

lemma logout_clears:
  "token (logout s) = [] \<and> refreshToken (logout s) = [] \<and> userInfo (logout s) = None
   \<and> permissions (logout s) = [] \<and> localStorage (logout s) = no_storage
   \<and> pushed (logout s) = pushed s @ [''/login'']"
  by (simp add: logout_def no_storage_def)

lemma hydrate_step_fails:
  assumes "isl person \<or> isl permsResp \<or> isl menuResp
     \<or> (\<exists>d. menuResp = Inr d \<and>
          (case menu_tree (case d of None \<Rightarrow> [] | Some l \<Rightarrow> l) of
             None \<Rightarrow> True
           | Some ts \<Rightarrow> fst (addRoutes add (routeTable st) (traverse ts)) \<noteq> None))"
  shows "fst (hydrate add st person permsResp menuResp) \<noteq> None"
  using assms
  by (cases person; cases permsResp; cases menuResp)
     (auto simp: hydrate_def fetchUserInfo_def fetchMenus_def generateRoutes_def Let_def
        split: option.splits prod.splits sum.splits)

text \<open>
  C6. For a navigation to a route that is not public, by a session that has a token and
  no profile: when a step of the hydration fails (the profile request, the permission
  request or the menu request is rejected, the synthesis of the routes does not return,
  or the router rejects a record), the guard logs out, which clears the session in
  memory and in storage, and redirects to the login route; the navigation neither
  proceeds nor is retried.
\<close>

theorem hydration_failure_forces_logout:
  assumes "\<not> to_public to" and "isLoggedIn (userStore st)" and "userInfo (userStore st) = None"
    and "isl person \<or> isl permsResp \<or> isl menuResp
     \<or> (\<exists>d. menuResp = Inr d \<and>
          (case menu_tree (case d of None \<Rightarrow> [] | Some l \<Rightarrow> l) of
             None \<Rightarrow> True
           | Some ts \<Rightarrow> fst (addRoutes add (routeTable st) (traverse ts)) \<noteq> None))"
  shows "fst (beforeEach add to st person permsResp menuResp) = RedirectPath ''/login''
       \<and> userStore (snd (beforeEach add to st person permsResp menuResp))
           = logout (userStore (snd (hydrate add st person permsResp menuResp)))
       \<and> token (userStore (snd (beforeEach add to st person permsResp menuResp))) = []
       \<and> userInfo (userStore (snd (beforeEach add to st person permsResp menuResp))) = None
       \<and> permissions (userStore (snd (beforeEach add to st person permsResp menuResp))) = []
       \<and> localStorage (userStore (snd (beforeEach add to st person permsResp menuResp))) = no_storage"
proof -
  from assms(4) have "fst (hydrate add st person permsResp menuResp) \<noteq> None"
    by (rule hydrate_step_fails)
  then obtain e st1 where h: "hydrate add st person permsResp menuResp = (Some e, st1)"
    by (cases "hydrate add st person permsResp menuResp") auto
  have b: "beforeEach add to st person permsResp menuResp
      = (RedirectPath ''/login'', st1\<lparr> userStore := logout (userStore st1) \<rparr>)"
    using assms(1-3) by (simp add: beforeEach_def h)
  show ?thesis
    by (simp add: b h logout_clears)
qed

theorem hydration_failure_forces_logout_witness:
  "fst (beforeEach (addRoute (\<lambda>r. True) ''Layout'') guarded_target stored_token_state person_ok rejected (Inr None))
     = RedirectPath ''/login''
   \<and> token (userStore (snd (beforeEach (addRoute (\<lambda>r. True) ''Layout'') guarded_target stored_token_state
        person_ok rejected (Inr None)))) = []
   \<and> userInfo (userStore (snd (beforeEach (addRoute (\<lambda>r. True) ''Layout'') guarded_target stored_token_state
        person_ok rejected (Inr None)))) = None
   \<and> fst (beforeEach reject_all guarded_target stored_token_state person_ok perms_ok
        (Inr (Some [page 1 ''Supply'' ''/rk/supply''])))
     = RedirectPath ''/login''"
proof -
  have a: "\<not> to_public guarded_target" by (simp add: guarded_target_def)
  have b: "isLoggedIn (userStore stored_token_state)"
    by (simp add: stored_token_state_def isLoggedIn_def)
  have c: "userInfo (userStore stored_token_state) = None"
    by (simp add: stored_token_state_def empty_store_def)
  have d: "isl person_ok \<or> isl (rejected :: error + perms_data) \<or> isl (Inr None :: error + MenuItem list option)
     \<or> (\<exists>d. (Inr None :: error + MenuItem list option) = Inr d \<and>
          (case menu_tree (case d of None \<Rightarrow> [] | Some l \<Rightarrow> l) of
             None \<Rightarrow> True
           | Some ts \<Rightarrow> fst (addRoutes (addRoute (\<lambda>r. True) ''Layout'') (routeTable stored_token_state) (traverse ts)) \<noteq> None))"
    by (simp add: rejected_def)
  have t: "menu_tree [page 1 ''Supply'' ''/rk/supply''] = Some [page 1 ''Supply'' ''/rk/supply'']"
    by (simp add: menu_tree_def forest_of_def buildMenuTree_def first_pass_def index_item_def
        attach_def item_id_def page_def Let_def)
  have r: "traverse [page 1 ''Supply'' ''/rk/supply'']
      = [route_of (page 1 ''Supply'' ''/rk/supply'')]"
    by (subst traverse.simps) (simp add: navigable_def truthy_def page_def)
  have e: "isl person_ok \<or> isl perms_ok
     \<or> isl (Inr (Some [page 1 ''Supply'' ''/rk/supply'']) :: error + MenuItem list option)
     \<or> (\<exists>d. (Inr (Some [page 1 ''Supply'' ''/rk/supply'']) :: error + MenuItem list option) = Inr d \<and>
          (case menu_tree (case d of None \<Rightarrow> [] | Some l \<Rightarrow> l) of
             None \<Rightarrow> True
           | Some ts \<Rightarrow> fst (addRoutes reject_all (routeTable stored_token_state) (traverse ts)) \<noteq> None))"
    by (simp add: t r reject_all_def)
  show ?thesis
    using hydration_failure_forces_logout [OF a b c d]
      hydration_failure_forces_logout [OF a b c e]
    by blast
qed

end
